(* ===== verification/Prelude.thy ===== *)
theory Prelude
  imports Main
begin

text \<open>
  Shared vocabulary of the development. The program is a FastAPI service written in
  Python; every handler either returns a value (serialised by the framework with the
  route's declared status), returns an explicit \<open>Response(status_code, content)\<close>, or
  raises an exception that the framework turns into status 500. This theory fixes that
  outcome type, the Python exceptions that reach the framework, and the character-level
  helpers (\<open>str.lower\<close>, \<open>str.isspace\<close>, UTF-8 encoding) the components share.
  Characters are Isabelle's 8-bit \<open>char\<close>, read as the Unicode code points 0 to 255.
\<close>

named_theorems outcome_simps "evaluation rules for handler outcomes"

section \<open>Handler outcomes\<close>

text \<open>
  Uncaught exceptions of the modelled code paths. \<open>PyJWTError\<close> is an exception of
  PyJWT's \<open>jwt.PyJWTError\<close> family raised where no handler catches it.
\<close>

datatype py_exc =
    JSONDecodeError
  | AttributeError string
  | ValueError string
  | NotImplementedError string
  | TypeError string
  | RecursionError
  | OverflowError string
  | PyJWTError string

text \<open>
  What a route handler hands back to the framework: an explicit \<open>Response\<close> with a
  status code and a body, or a value \<open>'r\<close> that the route serialises.
\<close>

datatype 'r http = Response nat string | Return 'r

type_synonym 'r outcome = "py_exc + 'r http"

text \<open>The status code the client sees, given the route's declared default status.\<close>

fun status_of :: "nat \<Rightarrow> 'r outcome \<Rightarrow> nat" where
  "status_of d (Inl _) = 500"
| "status_of d (Inr (Response st _)) = st"
| "status_of d (Inr (Return _)) = d"

declare status_of.simps [outcome_simps]

section \<open>Characters\<close>

text \<open>
  Python's \<open>str.isspace\<close> (and the regular-expression class \<open>\s\<close>) on the code points
  0 to 255: tab to carriage return, the four separators 0x1C to 0x1F, space, NEL (0x85)
  and no-break space (0xA0).
\<close>

definition py_isspace :: "char \<Rightarrow> bool" where
  "py_isspace c \<longleftrightarrow>
     (let n = of_char c :: nat in
      (9 \<le> n \<and> n \<le> 13) \<or> (28 \<le> n \<and> n \<le> 32) \<or> n = 133 \<or> n = 160)"

text \<open>
  Python's \<open>str.lower\<close> on the code points 0 to 255: \<open>A\<close>-\<open>Z\<close> and the Latin-1
  capitals 0xC0-0xDE except the multiplication sign 0xD7 move up by 32.
\<close>

definition py_lower_char :: "char \<Rightarrow> char" where
  "py_lower_char c =
     (let n = of_char c :: nat in
      if (65 \<le> n \<and> n \<le> 90) \<or> (192 \<le> n \<and> n \<le> 222 \<and> n \<noteq> 215)
      then char_of (n + 32) else c)"

definition py_lower :: "string \<Rightarrow> string" where
  "py_lower s = map py_lower_char s"

text \<open>\<open>str.encode("utf-8")\<close> for code points below 256: one byte below 128, two above.\<close>

fun utf8_encode :: "string \<Rightarrow> string" where
  "utf8_encode [] = []"
| "utf8_encode (c # cs) =
     (let n = of_char c :: nat in
      if n < 128 then c # utf8_encode cs
      else char_of (192 + n div 64) # char_of (128 + n mod 64) # utf8_encode cs)"

text \<open>
  \<open>bytes.decode("utf-8")\<close>: a byte below 128 is its own character, a lead byte
  \<open>0xC2\<close> or \<open>0xC3\<close> with a continuation byte is a code point from 128 to 255. A lead
  byte from \<open>0xC4\<close> to \<open>0xF4\<close> starts a code point above 255, outside the model, and is
  refused as such; any other byte sequence raises \<open>UnicodeDecodeError\<close>, a
  \<open>ValueError\<close>.
\<close>

fun utf8_decode :: "string \<Rightarrow> py_exc + string" where
  "utf8_decode [] = Inr []"
| "utf8_decode [b] =
     (if (of_char b :: nat) < 128 then Inr [b]
      else if (of_char b :: nat) < 196 \<or> 244 < (of_char b :: nat) then Inl (ValueError ''utf-8'')
      else Inl (ValueError ''code point above 255''))"
| "utf8_decode (b # c # cs) =
     (let n = of_char b :: nat; m = of_char c :: nat in
      if n < 128 then (case utf8_decode (c # cs) of Inl e \<Rightarrow> Inl e | Inr s \<Rightarrow> Inr (b # s))
      else if 194 \<le> n \<and> n \<le> 195 then
        (if 128 \<le> m \<and> m < 192
         then (case utf8_decode cs of Inl e \<Rightarrow> Inl e | Inr s \<Rightarrow> Inr (char_of ((n - 192) * 64 + (m - 128)) # s))
         else Inl (ValueError ''utf-8''))
      else if 196 \<le> n \<and> n \<le> 244 then Inl (ValueError ''code point above 255'')
      else Inl (ValueError ''utf-8''))"

text \<open>Text of ASCII characters other than NUL, as \<open>json.dumps\<close> writes it.\<close>

definition ascii_text :: "string \<Rightarrow> bool" where
  "ascii_text s \<longleftrightarrow> list_all (\<lambda>c. 0 < (of_char c :: nat) \<and> (of_char c :: nat) < 128) s"

section \<open>Shared lemmas\<close>

lemma py_lower_char_idem: "py_lower_char (py_lower_char c) = py_lower_char c"
proof (cases "(65 \<le> (of_char c::nat) \<and> (of_char c::nat) \<le> 90) \<or>
              (192 \<le> (of_char c::nat) \<and> (of_char c::nat) \<le> 222 \<and> (of_char c::nat) \<noteq> 215)")
  case True
  then have "(of_char (char_of (of_char c + 32 :: nat) :: char) :: nat) = of_char c + 32"
    by (auto simp: of_char_of)
  with True show ?thesis by (simp add: py_lower_char_def Let_def) linarith
next
  case False
  then show ?thesis by (auto simp: py_lower_char_def Let_def)
qed

lemma py_lower_idem [simp]: "py_lower (py_lower s) = py_lower s"
  by (simp add: py_lower_def comp_def py_lower_char_idem)

lemma length_utf8_encode_ge [simp]: "length s \<le> length (utf8_encode s)"
  by (induction s) (auto simp: Let_def)

lemma utf8_encode_append [simp]: "utf8_encode (s @ t) = utf8_encode s @ utf8_encode t"
  by (induction s) (auto simp: Let_def)

lemma utf8_encode_ascii:
  "(\<forall>c \<in> set s. of_char c < (128::nat)) \<Longrightarrow> utf8_encode s = s"
  by (induction s) (auto simp: Let_def)

lemma utf8_decode_encode [simp]: "utf8_decode (utf8_encode s) = Inr s"
proof (induction s)
  case (Cons c s)
  show ?case
  proof (cases "(of_char c :: nat) < 128")
    case True
    then show ?thesis using Cons by (cases "utf8_encode s") (simp_all add: Let_def)
  next
    case False
    define n where "n = (of_char c :: nat)"
    have n256: "n < 256" using nat_of_char_less_256 [of c] by (simp add: n_def)
    have hi: "of_char (char_of (192 + n div 64) :: char) = (192 + n div 64 :: nat)"
      using n256 by (simp add: of_char_of)
    have lo: "of_char (char_of (128 + n mod 64) :: char) = (128 + n mod 64 :: nat)"
      using n256 by (simp add: of_char_of)
    have "char_of ((192 + n div 64 - 192) * 64 + (128 + n mod 64 - 128)) = c"
      by (simp add: n_def)
    moreover have "2 \<le> n div 64 \<and> n div 64 < 4" using False n256 unfolding n_def [symmetric] by auto
    ultimately show ?thesis using False Cons hi lo n256 by (simp add: Let_def n_def [symmetric])
  qed
qed simp

lemma ascii_text_append [simp]: "ascii_text (s @ t) \<longleftrightarrow> ascii_text s \<and> ascii_text t"
  by (simp add: ascii_text_def)

lemma ascii_text_Cons [simp]: "ascii_text (c # s) \<longleftrightarrow> 0 < (of_char c :: nat) \<and> (of_char c :: nat) < 128 \<and> ascii_text s"
  by (simp add: ascii_text_def)

lemma ascii_text_Nil [simp]: "ascii_text []"
  by (simp add: ascii_text_def)

lemma utf8_decode_ascii: "ascii_text s \<Longrightarrow> utf8_decode s = Inr s"
  by (induction s rule: utf8_decode.induct) (auto simp: Let_def)

lemma utf8_encode_ascii_text: "ascii_text s \<Longrightarrow> utf8_encode s = s"
  by (induction s) (auto simp: Let_def)

lemma status_of_Inl [simp]: "status_of d (Inl e) = 500"
  by simp

end
