(* ===== verification/Json.thy ===== *)
theory Json
  imports Prelude
begin

text \<open>
  JSON values as Python's \<open>json.loads\<close> delivers them to the code: \<open>None\<close>, booleans,
  integers, strings, lists and dicts. A decoded object keeps its members in document
  order; Python's dict keeps the last value of a duplicated key, which
  \<open>obj_get\<close> reproduces. \<open>py_truthy\<close> is Python's truth value of such a value, the
  test behind \<open>if not token\<close>. A float is kept as the literal that \<open>json.loads\<close> hands
  to \<open>float()\<close> (\<open>1.5e3\<close>, \<open>NaN\<close>, \<open>-Infinity\<close>). Its rounding to binary64 is not
  modelled: it matters only beyond the range of doubles (\<open>1e-400\<close> becomes \<open>0.0\<close>).
\<close>

datatype json =
    JNull
  | JBool bool
  | JInt int
  | JFloat string
  | JStr string
  | JList "json list"
  | JObj "(string \<times> json) list"

type_synonym jobj = "(string \<times> json) list"

text \<open>\<open>d[k]\<close> on the dict that \<open>json.loads\<close> builds: the last member named \<open>k\<close>.\<close>

definition obj_get :: "jobj \<Rightarrow> string \<Rightarrow> json option" where
  "obj_get kvs k = map_of (rev kvs) k"

text \<open>\<open>d.get(k, default)\<close>.\<close>

definition dict_get :: "jobj \<Rightarrow> string \<Rightarrow> json \<Rightarrow> json" where
  "dict_get kvs k d = (case obj_get kvs k of None \<Rightarrow> d | Some v \<Rightarrow> v)"

text \<open>
  Whether a float literal denotes a non-zero value: a non-zero digit before the exponent,
  or one of \<open>NaN\<close>, \<open>Infinity\<close>, \<open>-Infinity\<close>.
\<close>

fun float_lit_nonzero :: "string \<Rightarrow> bool" where
  "float_lit_nonzero [] = False"
| "float_lit_nonzero (c # cs) =
     (if c = CHR ''e'' \<or> c = CHR ''E'' then False
      else c \<in> set ''123456789NI'' \<or> float_lit_nonzero cs)"

text \<open>\<open>bool(v)\<close>: \<open>None\<close>, \<open>False\<close>, zero and empty containers are false.\<close>

fun py_truthy :: "json \<Rightarrow> bool" where
  "py_truthy JNull = False"
| "py_truthy (JBool b) = b"
| "py_truthy (JInt n) = (n \<noteq> 0)"
| "py_truthy (JFloat lit) = float_lit_nonzero lit"
| "py_truthy (JStr s) = (s \<noteq> [])"
| "py_truthy (JList xs) = (xs \<noteq> [])"
| "py_truthy (JObj kvs) = (kvs \<noteq> [])"

text \<open>The member names of a value, at every depth.\<close>

fun json_keys :: "json \<Rightarrow> string list" where
  "json_keys (JList xs) = concat (map json_keys xs)"
| "json_keys (JObj kvs) = concat (map (\<lambda>kv. fst kv # json_keys (snd kv)) kvs)"
| "json_keys _ = []"

lemma obj_get_Nil [simp]: "obj_get [] k = None"
  by (simp add: obj_get_def)

lemma obj_get_snoc [simp]:
  "obj_get (kvs @ [(a, v)]) k = (if k = a then Some v else obj_get kvs k)"
  by (simp add: obj_get_def)

lemma obj_get_Cons [simp]:
  "obj_get ((a, v) # kvs) k =
     (case obj_get kvs k of None \<Rightarrow> (if k = a then Some v else None) | Some w \<Rightarrow> Some w)"
proof -
  have "obj_get ((a, v) # kvs) k = (map_of [(a, v)] ++ map_of (rev kvs)) k"
    by (simp only: obj_get_def rev.simps map_of_append)
  then show ?thesis
    by (cases "map_of (rev kvs) k") (auto simp: obj_get_def map_add_def)
qed

lemma obj_get_None_iff: "obj_get kvs k = None \<longleftrightarrow> k \<notin> fst ` set kvs"
  by (simp add: obj_get_def map_of_eq_None_iff)

lemma dict_get_absent [simp]: "obj_get kvs k = None \<Longrightarrow> dict_get kvs k d = d"
  by (simp add: dict_get_def)

lemma dict_get_present [simp]: "obj_get kvs k = Some v \<Longrightarrow> dict_get kvs k d = v"
  by (simp add: dict_get_def)

lemma py_truthy_JStr_Cons [simp]: "py_truthy (JStr (c # cs))"
  by simp

end
