(* ===== verification/Jwt_Api.thy ===== *)
theory Jwt_Api
  imports Json
begin

text \<open>
  The interface between the program and the PyJWT library it calls. The program reads
  two configuration values (\<open>settings.secret_key\<close>, \<open>settings.algorithm\<close>, from the
  configuration module outside \<open>src/\<close>), calls \<open>jwt.encode(claims, key, algorithm=alg)\<close>
  when it issues a token and \<open>jwt.decode(token, key, algorithms=[alg])\<close> in the token
  gate. The components are stated over an encoder and a decoder of the types below;
  \<open>subject_roundtrip\<close> is the one law about them that the program relies on. The
  theory \<open>Jwt\<close> discharges it for the model of PyJWT under every HMAC configuration,
  and refutes it under \<open>algorithm = "none"\<close>.
\<close>

record settings =
  secret_key :: string
  algorithm :: string

text \<open>
  What \<open>jwt.decode\<close> raises: the subclasses of \<open>jwt.PyJWTError\<close>, and
  \<open>OtherException\<close> for an exception of another class escaping from inside the library
  (\<open>TypeError\<close> from \<open>int()\<close> on a registered claim, \<open>RecursionError\<close> from
  \<open>json.loads\<close> on a deeply nested segment).
\<close>

datatype jwt_error =
    DecodeError string
  | InvalidSignatureError
  | InvalidAlgorithmError string
  | InvalidKeyError string
  | ExpiredSignatureError
  | ImmatureSignatureError
  | InvalidAudienceError
  | InvalidIssuedAtError
  | OtherException py_exc

text \<open>Whether \<open>except jwt.PyJWTError\<close> catches the error.\<close>

fun is_pyjwt_error :: "jwt_error \<Rightarrow> bool" where
  "is_pyjwt_error (OtherException _) = False"
| "is_pyjwt_error _ = True"

text \<open>
  \<open>jwt.decode(token, key, algorithms)\<close>: the token is whatever JSON value the request
  body carries; the result is the claims dict or the exception raised.
  \<open>jwt.encode(claims, key, algorithm)\<close>: the token string, or an exception that is not
  a \<open>PyJWTError\<close> (an unsupported algorithm raises \<open>NotImplementedError\<close>).
\<close>

type_synonym jwt_decoder = "json \<Rightarrow> string \<Rightarrow> string list \<Rightarrow> jwt_error + jobj"
type_synonym jwt_encoder = "jobj \<Rightarrow> string \<Rightarrow> string \<Rightarrow> py_exc + string"

text \<open>
  The law the program needs of the library under a configuration: a token issued with
  the configured key and algorithm for the claims \<open>{"sub": e}\<close> is a non-empty string
  that the decoder, given the same key and the configured algorithm as the only one
  allowed, accepts with the subject \<open>e\<close>.
\<close>

definition subject_roundtrip :: "jwt_encoder \<Rightarrow> jwt_decoder \<Rightarrow> settings \<Rightarrow> bool" where
  "subject_roundtrip enc dec cfg \<longleftrightarrow>
     (\<forall>e tok. enc [(''sub'', JStr e)] (secret_key cfg) (algorithm cfg) = Inr tok \<longrightarrow>
        tok \<noteq> [] \<and> (\<exists>p. dec (JStr tok) (secret_key cfg) [algorithm cfg] = Inr p \<and>
                       obj_get p ''sub'' = Some (JStr e)))"

lemma subject_roundtripD:
  assumes "subject_roundtrip enc dec cfg"
    and "enc [(''sub'', JStr e)] (secret_key cfg) (algorithm cfg) = Inr tok"
  shows "tok \<noteq> []"
    and "\<exists>p. dec (JStr tok) (secret_key cfg) [algorithm cfg] = Inr p \<and> obj_get p ''sub'' = Some (JStr e)"
  using assms by (auto simp: subject_roundtrip_def)

end
