(* ===== verification/Gate.thy ===== *)
theory Gate
  imports Jwt_Api
begin

text \<open>
  The token gate, \<open>protect_with_token\<close> of \<open>src/utils/decorators.py\<close>. The decorator
  wraps a route handler \<open>f\<close>; the wrapper \<open>protector\<close> reads the request body as JSON,
  takes its \<open>token\<close> member, decodes it with \<open>jwt.decode\<close>, checks the \<open>sub\<close> claim and
  only then awaits \<open>f(*args, **kwargs)\<close>. A handler is modelled as a state transformer
  over the database state \<open>'s\<close>; the request body is the result of \<open>request.json()\<close>,
  \<open>None\<close> when the body is not valid JSON. The theory also holds the per-call state
  machine of the specification (section 4.3) as an inductive step relation, and the
  theorems that relate the two.
\<close>

type_synonym ('a, 's, 'r) handler = "'a \<Rightarrow> 's \<Rightarrow> 'r outcome \<times> 's"

section \<open>The decorator\<close>

text \<open>
  Lines 7-21 of \<open>decorators.py\<close>. The \<open>try\<close> block only catches \<open>jwt.PyJWTError\<close>:
  a body that is not JSON raises \<open>JSONDecodeError\<close> from \<open>request.json()\<close>, a body
  that is JSON but not an object raises \<open>AttributeError\<close> at \<open>body.get\<close>, and an
  exception of another class raised inside \<open>jwt.decode\<close> passes through; all three
  escape.
  \<open>payload.get("sub")\<close> is \<open>None\<close> when the claim is missing or JSON \<open>null\<close>.
\<close>

definition protect_with_token ::
  "jwt_decoder \<Rightarrow> settings \<Rightarrow> ('a, 's, 'r) handler \<Rightarrow> json option \<Rightarrow> 'a \<Rightarrow> 's \<Rightarrow> 'r outcome \<times> 's"
where
  "protect_with_token dec cfg f body args s =
     (case body of
        None \<Rightarrow> (Inl JSONDecodeError, s)
      | Some b \<Rightarrow>
          (case b of
             JObj kvs \<Rightarrow>
               (let token = dict_get kvs ''token'' JNull in
                if \<not> py_truthy token
                then (Inr (Response 422 ''No token provided''), s)
                else
                  (case dec token (secret_key cfg) [algorithm cfg] of
                     Inl (OtherException e) \<Rightarrow> (Inl e, s)
                   | Inl _ \<Rightarrow> (Inr (Response 401 ''Could not validate email''), s)
                   | Inr payload \<Rightarrow>
                       if dict_get payload ''sub'' JNull = JNull
                       then (Inr (Response 401 ''Could not validate email''), s)
                       else f args s))
           | _ \<Rightarrow> (Inl (AttributeError ''get''), s)))"

section \<open>The specification's per-call state machine\<close>

text \<open>
  Section 4.3 of the specification: \<open>Received \<rightarrow> ParsingBody \<rightarrow> Rejected(422) |
  TokenPresent \<rightarrow> Decoding \<rightarrow> Rejected(401) | Authorized\<close>. A body that cannot be parsed,
  that has no \<open>token\<close> field, or whose token is empty (false in Python's sense) is
  rejected with 422; a token that does not decode, or whose claims have no subject, is
  rejected with 401.
\<close>

datatype gate_phase = Received | TokenPresent json | Authorized | Rejected nat string

fun spec_token :: "json option \<Rightarrow> json option" where
  "spec_token (Some (JObj kvs)) =
     (let t = dict_get kvs ''token'' JNull in if py_truthy t then Some t else None)"
| "spec_token _ = None"

inductive gate_step :: "jwt_decoder \<Rightarrow> settings \<Rightarrow> json option \<Rightarrow> gate_phase \<Rightarrow> gate_phase \<Rightarrow> bool"
  for dec cfg body
where
  reject_no_token:
    "spec_token body = None \<Longrightarrow>
     gate_step dec cfg body Received (Rejected 422 ''No token provided'')"
| token_present:
    "spec_token body = Some t \<Longrightarrow> gate_step dec cfg body Received (TokenPresent t)"
| reject_invalid:
    "dec t (secret_key cfg) [algorithm cfg] = Inl e \<Longrightarrow>
     gate_step dec cfg body (TokenPresent t) (Rejected 401 ''Could not validate email'')"
| reject_no_subject:
    "dec t (secret_key cfg) [algorithm cfg] = Inr p \<Longrightarrow> dict_get p ''sub'' JNull = JNull \<Longrightarrow>
     gate_step dec cfg body (TokenPresent t) (Rejected 401 ''Could not validate email'')"
| authorize:
    "dec t (secret_key cfg) [algorithm cfg] = Inr p \<Longrightarrow> dict_get p ''sub'' JNull \<noteq> JNull \<Longrightarrow>
     gate_step dec cfg body (TokenPresent t) Authorized"

inductive_cases gate_step_ReceivedE: "gate_step dec cfg body Received ph"
inductive_cases gate_step_TokenPresentE: "gate_step dec cfg body (TokenPresent t) ph"
inductive_cases gate_step_AuthorizedE: "gate_step dec cfg body Authorized ph"
inductive_cases gate_step_RejectedE: "gate_step dec cfg body (Rejected st m) ph"

text \<open>The phase the machine stops in, computed.\<close>

definition gate_verdict :: "jwt_decoder \<Rightarrow> settings \<Rightarrow> json option \<Rightarrow> gate_phase" where
  "gate_verdict dec cfg body =
     (case spec_token body of
        None \<Rightarrow> Rejected 422 ''No token provided''
      | Some t \<Rightarrow>
          (case dec t (secret_key cfg) [algorithm cfg] of
             Inl _ \<Rightarrow> Rejected 401 ''Could not validate email''
           | Inr p \<Rightarrow>
               if dict_get p ''sub'' JNull = JNull
               then Rejected 401 ''Could not validate email'' else Authorized))"

text \<open>
  Where the code leaves the machine: the decoder raises an exception that
  \<open>except jwt.PyJWTError\<close> does not catch. The specification counts every decoding
  failure as an invalid token.
\<close>

definition decode_escapes :: "jwt_decoder \<Rightarrow> settings \<Rightarrow> json option \<Rightarrow> bool" where
  "decode_escapes dec cfg body =
     (case spec_token body of
        None \<Rightarrow> False
      | Some t \<Rightarrow>
          (case dec t (secret_key cfg) [algorithm cfg] of
             Inl err \<Rightarrow> \<not> is_pyjwt_error err
           | Inr _ \<Rightarrow> False))"

text \<open>What a terminal phase means for the call: a response, or the wrapped handler's run.\<close>

fun phase_result :: "gate_phase \<Rightarrow> ('a, 's, 'r) handler \<Rightarrow> 'a \<Rightarrow> 's \<Rightarrow> ('r outcome \<times> 's) option" where
  "phase_result (Rejected st m) f args s = Some (Inr (Response st m), s)"
| "phase_result Authorized f args s = Some (f args s)"
| "phase_result _ f args s = None"

section \<open>Lemmas on the machine\<close>

lemma gate_verdict_terminal:
  "gate_verdict dec cfg body = Authorized \<or> (\<exists>st m. gate_verdict dec cfg body = Rejected st m)"
  by (auto simp: gate_verdict_def split: option.split sum.split)

lemma gate_step_Rejected_stuck [simp]: "\<not> gate_step dec cfg body (Rejected st m) ph"
  by (auto elim: gate_step_RejectedE)

lemma gate_step_Authorized_stuck [simp]: "\<not> gate_step dec cfg body Authorized ph"
  by (auto elim: gate_step_AuthorizedE)

lemma gate_verdict_stuck: "\<not> gate_step dec cfg body (gate_verdict dec cfg body) ph"
  using gate_verdict_terminal [of dec cfg body] by auto

text \<open>One step out of \<open>Received\<close> or \<open>TokenPresent\<close> lands where the computation says.\<close>

lemma gate_step_Received:
  "gate_step dec cfg body Received ph \<longleftrightarrow>
     (case spec_token body of
        None \<Rightarrow> ph = gate_verdict dec cfg body
      | Some t \<Rightarrow> ph = TokenPresent t)"
  by (auto simp: gate_verdict_def elim: gate_step_ReceivedE intro: gate_step.intros
           split: option.splits)

lemma gate_step_TokenPresent:
  "spec_token body = Some t \<Longrightarrow>
   gate_step dec cfg body (TokenPresent t) ph \<longleftrightarrow> ph = gate_verdict dec cfg body"
  by (auto simp: gate_verdict_def elim: gate_step_TokenPresentE intro: gate_step.intros
           split: sum.splits if_splits)

text \<open>The reachable phases: the start, the token phase, and the verdict.\<close>

lemma gate_reachable_cases:
  assumes "(gate_step dec cfg body)\<^sup>*\<^sup>* Received ph"
  shows "ph = Received \<or> (\<exists>t. spec_token body = Some t \<and> ph = TokenPresent t)
         \<or> ph = gate_verdict dec cfg body"
  using assms
proof (induction rule: rtranclp_induct)
  case base
  then show ?case by simp
next
  case (step y z)
  from step.IH show ?case
  proof (elim disjE exE conjE)
    assume "y = Received"
    with step.hyps(2) show ?thesis
      by (auto simp: gate_step_Received split: option.splits)
  next
    fix t assume "spec_token body = Some t" and "y = TokenPresent t"
    with step.hyps(2) show ?thesis by (simp add: gate_step_TokenPresent)
  next
    assume "y = gate_verdict dec cfg body"
    with step.hyps(2) gate_verdict_stuck show ?thesis by blast
  qed
qed

lemma gate_reaches_verdict: "(gate_step dec cfg body)\<^sup>*\<^sup>* Received (gate_verdict dec cfg body)"
proof (cases "spec_token body")
  case None
  then have "gate_step dec cfg body Received (gate_verdict dec cfg body)"
    by (simp add: gate_step_Received)
  then show ?thesis by blast
next
  case (Some t)
  then have "gate_step dec cfg body Received (TokenPresent t)"
    by (simp add: gate_step_Received)
  moreover from Some have "gate_step dec cfg body (TokenPresent t) (gate_verdict dec cfg body)"
    by (simp add: gate_step_TokenPresent)
  ultimately show ?thesis by (meson rtranclp.rtrancl_refl rtranclp.rtrancl_into_rtrancl)
qed

text \<open>A reachable terminal phase is the verdict: the machine is deterministic.\<close>

lemma gate_terminal_is_verdict:
  assumes "(gate_step dec cfg body)\<^sup>*\<^sup>* Received ph" and "phase_result ph f args s = Some r"
  shows "ph = gate_verdict dec cfg body"
  using gate_reachable_cases [OF assms(1)] assms(2) by auto

text \<open>
  On an object body the code computes the verdict's result, unless the decoder raises an
  exception that the gate does not catch; then that exception escapes.
\<close>

lemma protect_with_token_JObj:
  "\<not> decode_escapes dec cfg (Some (JObj kvs)) \<Longrightarrow>
   phase_result (gate_verdict dec cfg (Some (JObj kvs))) f args s =
     Some (protect_with_token dec cfg f (Some (JObj kvs)) args s)"
  by (auto simp: protect_with_token_def gate_verdict_def decode_escapes_def Let_def
           split: sum.split jwt_error.split)

lemma protect_with_token_escapes:
  "spec_token body = Some t \<Longrightarrow> dec t (secret_key cfg) [algorithm cfg] = Inl (OtherException e) \<Longrightarrow>
   protect_with_token dec cfg f body args s = (Inl e, s)"
  by (cases body rule: spec_token.cases) (auto simp: protect_with_token_def Let_def split: if_splits)

lemma gate_Authorized_not_escapes:
  "gate_verdict dec cfg body = Authorized \<Longrightarrow> \<not> decode_escapes dec cfg body"
  by (auto simp: gate_verdict_def decode_escapes_def split: option.splits sum.splits if_splits)

lemma decode_escapesE:
  assumes "decode_escapes dec cfg body"
  obtains t e where "spec_token body = Some t" "dec t (secret_key cfg) [algorithm cfg] = Inl (OtherException e)"
  using assms by (auto simp: decode_escapes_def split: option.splits sum.splits elim: is_pyjwt_error.elims)

text \<open>A value returned to the framework comes from the wrapped handler, after a decoded token.\<close>

lemma protect_with_token_Return:
  assumes "fst (protect_with_token dec cfg f body args s) = Inr (Return v)"
  shows "(\<exists>kvs p. body = Some (JObj kvs) \<and> dec (dict_get kvs ''token'' JNull) (secret_key cfg) [algorithm cfg] = Inr p)
         \<and> protect_with_token dec cfg f body args s = f args s"
  using assms
  by (auto simp: protect_with_token_def Let_def split: option.splits json.splits sum.splits jwt_error.splits if_splits)

lemma gate_Authorized_object:
  "gate_verdict dec cfg body = Authorized \<Longrightarrow> \<exists>kvs. body = Some (JObj kvs)"
  by (cases body rule: spec_token.cases) (auto simp: gate_verdict_def)

lemma gate_reaches_Authorized_iff:
  "(gate_step dec cfg body)\<^sup>*\<^sup>* Received Authorized \<longleftrightarrow> gate_verdict dec cfg body = Authorized"
proof
  assume "(gate_step dec cfg body)\<^sup>*\<^sup>* Received Authorized"
  from gate_reachable_cases [OF this] show "gate_verdict dec cfg body = Authorized" by auto
next
  assume "gate_verdict dec cfg body = Authorized"
  with gate_reaches_verdict [of dec cfg body] show "(gate_step dec cfg body)\<^sup>*\<^sup>* Received Authorized"
    by simp
qed

text \<open>The decorator either leaves the state alone or is exactly the wrapped handler's run.\<close>

lemma protect_with_token_state:
  "snd (protect_with_token dec cfg f body args s) = s \<or> protect_with_token dec cfg f body args s = f args s"
  by (auto simp: protect_with_token_def Let_def split: option.split json.split sum.split jwt_error.split)

text \<open>
  Without authorization the outcome is one value for every handler, argument and state,
  and the state is returned unchanged.
\<close>

lemma protect_with_token_unauthorized:
  assumes "\<not> (gate_step dec cfg body)\<^sup>*\<^sup>* Received Authorized"
  shows "\<exists>r. \<forall>f args s. protect_with_token dec cfg f body args s = (r, s)"
proof -
  from assms have "gate_verdict dec cfg body \<noteq> Authorized"
    by (simp add: gate_reaches_Authorized_iff)
  then obtain st m where v: "gate_verdict dec cfg body = Rejected st m"
    using gate_verdict_terminal by blast
  show ?thesis
  proof (cases "\<exists>kvs. body = Some (JObj kvs)")
    case True
    then obtain kvs where b: "body = Some (JObj kvs)" by blast
    show ?thesis
    proof (cases "decode_escapes dec cfg body")
      case True
      then obtain t e where "spec_token body = Some t"
        and "dec t (secret_key cfg) [algorithm cfg] = Inl (OtherException e)"
        by (rule decode_escapesE)
      then have "protect_with_token dec cfg f body args s = (Inl e, s)" for f args s
        by (rule protect_with_token_escapes)
      then show ?thesis by blast
    next
      case False
      have "protect_with_token dec cfg f body args s = (Inr (Response st m), s)" for f args s
        using protect_with_token_JObj [of dec cfg kvs f args s] False v b by simp
      then show ?thesis by blast
    qed
  next
    case False
    have "protect_with_token dec cfg f body args s =
            (if body = None then Inl JSONDecodeError else Inl (AttributeError ''get''), s)" for f args s
      using False by (cases body rule: spec_token.cases) (auto simp: protect_with_token_def)
    then show ?thesis by blast
  qed
qed

section \<open>Properties of the gate\<close>

text \<open>
  Claim C1. On a request whose body is a JSON object, and unless the decoder raises an
  exception outside \<open>jwt.PyJWTError\<close> (claim C13), the specification's state machine
  always reaches a terminal phase, and every terminal phase it reaches describes exactly
  what the decorated handler returns: the 422 and 401 responses with their messages, or
  the wrapped handler's own run.
\<close>

theorem protect_with_token_refines_spec:
  assumes "body = Some (JObj kvs)" and "\<not> decode_escapes dec cfg body"
  shows "(\<exists>ph. (gate_step dec cfg body)\<^sup>*\<^sup>* Received ph \<and>
               phase_result ph f args s = Some (protect_with_token dec cfg f body args s))
       \<and> (\<forall>ph r. (gate_step dec cfg body)\<^sup>*\<^sup>* Received ph \<longrightarrow> phase_result ph f args s = Some r
               \<longrightarrow> r = protect_with_token dec cfg f body args s)"
proof (intro conjI allI impI)
  have "phase_result (gate_verdict dec cfg body) f args s = Some (protect_with_token dec cfg f body args s)"
    using assms(2) unfolding assms(1) by (rule protect_with_token_JObj)
  with gate_reaches_verdict
  show "\<exists>ph. (gate_step dec cfg body)\<^sup>*\<^sup>* Received ph \<and>
             phase_result ph f args s = Some (protect_with_token dec cfg f body args s)"
    by blast
next
  fix ph r
  assume reach: "(gate_step dec cfg body)\<^sup>*\<^sup>* Received ph" and res: "phase_result ph f args s = Some r"
  from reach res have "ph = gate_verdict dec cfg body"
    by (rule gate_terminal_is_verdict)
  with res have "phase_result (gate_verdict dec cfg body) f args s = Some r"
    by simp
  then show "r = protect_with_token dec cfg f body args s"
    using protect_with_token_JObj [of dec cfg kvs f args s] assms by simp
qed

theorem protect_with_token_refines_spec_witness:
  "Some (JObj [(''token'', JStr ''t'')]) = Some (JObj [(''token'', JStr ''t'')]) \<and>
   \<not> decode_escapes (\<lambda>t k a. Inr [(''sub'', JStr ''a@b.com'')]) \<lparr>secret_key = ''k'', algorithm = ''HS256''\<rparr>
       (Some (JObj [(''token'', JStr ''t'')])) \<and>
   (\<exists>ph. (gate_step (\<lambda>t k a. Inr [(''sub'', JStr ''a@b.com'')]) \<lparr>secret_key = ''k'', algorithm = ''HS256''\<rparr>
           (Some (JObj [(''token'', JStr ''t'')])))\<^sup>*\<^sup>* Received ph \<and>
         phase_result ph (\<lambda>a s. (Inr (Return a), Suc s)) (7::nat) (0::nat) =
           Some (protect_with_token (\<lambda>t k a. Inr [(''sub'', JStr ''a@b.com'')])
                  \<lparr>secret_key = ''k'', algorithm = ''HS256''\<rparr> (\<lambda>a s. (Inr (Return a), Suc s))
                  (Some (JObj [(''token'', JStr ''t'')])) 7 0))"
proof -
  have ne: "\<not> decode_escapes (\<lambda>t k a. Inr [(''sub'', JStr ''a@b.com'')]) \<lparr>secret_key = ''k'', algorithm = ''HS256''\<rparr>
       (Some (JObj [(''token'', JStr ''t'')]))"
    by (simp add: decode_escapes_def)
  show ?thesis
    using ne conjunct1 [OF protect_with_token_refines_spec [OF refl ne,
        where f = "\<lambda>a s. (Inr (Return a), Suc s)" and args = "7::nat" and s = "0::nat"]]
    by blast
qed

text \<open>
  Claim C2. When the specification's machine authorizes the call, the decorated handler
  returns exactly what the wrapped handler returns, with the state it leaves: the
  handler runs once and its result is passed through unmodified.
\<close>

theorem protect_with_token_runs_handler:
  assumes "(gate_step dec cfg body)\<^sup>*\<^sup>* Received Authorized"
  shows "protect_with_token dec cfg f body args s = f args s"
proof -
  from assms have v: "gate_verdict dec cfg body = Authorized"
    by (simp add: gate_reaches_Authorized_iff)
  then obtain kvs where b: "body = Some (JObj kvs)"
    using gate_Authorized_object by blast
  from protect_with_token_JObj [of dec cfg kvs f args s] gate_Authorized_not_escapes [OF v] v b
  show ?thesis by simp
qed

theorem protect_with_token_runs_handler_witness:
  "(gate_step (\<lambda>t k a. Inr [(''sub'', JStr ''a@b.com'')]) \<lparr>secret_key = ''k'', algorithm = ''HS256''\<rparr>
      (Some (JObj [(''token'', JStr ''t'')])))\<^sup>*\<^sup>* Received Authorized \<and>
   protect_with_token (\<lambda>t k a. Inr [(''sub'', JStr ''a@b.com'')]) \<lparr>secret_key = ''k'', algorithm = ''HS256''\<rparr>
      (\<lambda>a s. (Inr (Return a), Suc s)) (Some (JObj [(''token'', JStr ''t'')])) (7::nat) (0::nat)
   = (Inr (Return 7), 1)"
proof -
  have r: "(gate_step (\<lambda>t k a. Inr [(''sub'', JStr ''a@b.com'')]) \<lparr>secret_key = ''k'', algorithm = ''HS256''\<rparr>
      (Some (JObj [(''token'', JStr ''t'')])))\<^sup>*\<^sup>* Received Authorized"
    by (simp add: gate_reaches_Authorized_iff gate_verdict_def)
  show ?thesis
    using r protect_with_token_runs_handler [OF r, where f = "\<lambda>a s. (Inr (Return a), Suc s)"
        and args = "7::nat" and s = "0::nat"]
    by simp
qed

text \<open>
  Claim C3. When the specification's machine does not authorize the call, the decorated
  handler's outcome does not depend on the wrapped handler at all and the state is left
  as it was: the protected operation never runs and has no effect.
\<close>

theorem protect_with_token_rejection_inert:
  assumes "\<not> (gate_step dec cfg body)\<^sup>*\<^sup>* Received Authorized"
  shows "\<exists>r. \<forall>f. protect_with_token dec cfg f body args s = (r, s)"
  using protect_with_token_unauthorized [OF assms] by metis

theorem protect_with_token_rejection_inert_witness:
  "\<not> (gate_step (\<lambda>t k a. Inl InvalidSignatureError) \<lparr>secret_key = ''k'', algorithm = ''HS256''\<rparr>
      (Some (JObj [(''token'', JStr ''garbage'')])))\<^sup>*\<^sup>* Received Authorized \<and>
   (\<exists>r. \<forall>f. protect_with_token (\<lambda>t k a. Inl InvalidSignatureError) \<lparr>secret_key = ''k'', algorithm = ''HS256''\<rparr>
      f (Some (JObj [(''token'', JStr ''garbage'')])) (7::nat) (0::nat) = (r, 0))"
proof -
  have n: "\<not> (gate_step (\<lambda>t k a. Inl InvalidSignatureError) \<lparr>secret_key = ''k'', algorithm = ''HS256''\<rparr>
      (Some (JObj [(''token'', JStr ''garbage'')])))\<^sup>*\<^sup>* Received Authorized"
    by (simp add: gate_reaches_Authorized_iff gate_verdict_def)
  show ?thesis
    using n protect_with_token_rejection_inert [OF n, where args = "7::nat" and s = "0::nat"]
    by blast
qed

text \<open>
  Claim C4. A request body that is not a JSON object (not JSON at all, or a JSON array,
  string, number, boolean or null) is one the specification rejects with 422 "No token
  provided"; the code instead lets \<open>JSONDecodeError\<close> or \<open>AttributeError\<close> escape, so
  the client sees status 500. The wrapped handler does not run and the state is kept.
\<close>

theorem protect_with_token_non_object_body:
  assumes "\<forall>kvs. body \<noteq> Some (JObj kvs)"
  shows "(gate_step dec cfg body)\<^sup>*\<^sup>* Received (Rejected 422 ''No token provided'')
       \<and> status_of d (fst (protect_with_token dec cfg f body args s)) = 500
       \<and> snd (protect_with_token dec cfg f body args s) = s"
proof (intro conjI)
  from assms have "spec_token body = None"
    by (cases body rule: spec_token.cases) auto
  then have "gate_step dec cfg body Received (Rejected 422 ''No token provided'')"
    by (rule gate_step.reject_no_token)
  then show "(gate_step dec cfg body)\<^sup>*\<^sup>* Received (Rejected 422 ''No token provided'')"
    by blast
  show "status_of d (fst (protect_with_token dec cfg f body args s)) = 500"
    using assms by (cases body rule: spec_token.cases) (auto simp: protect_with_token_def)
  show "snd (protect_with_token dec cfg f body args s) = s"
    using assms by (cases body rule: spec_token.cases) (auto simp: protect_with_token_def)
qed

theorem protect_with_token_non_object_body_witness:
  "(\<forall>kvs. (None :: json option) \<noteq> Some (JObj kvs)) \<and>
   (gate_step (\<lambda>t k a. Inl InvalidSignatureError) \<lparr>secret_key = ''k'', algorithm = ''HS256''\<rparr> None)\<^sup>*\<^sup>*
      Received (Rejected 422 ''No token provided'') \<and>
   status_of 200 (fst (protect_with_token (\<lambda>t k a. Inl InvalidSignatureError)
      \<lparr>secret_key = ''k'', algorithm = ''HS256''\<rparr> (\<lambda>a s. (Inr (Return a), Suc s)) None (7::nat) (0::nat))) = 500"
  using protect_with_token_non_object_body [where body = None and d = 200
      and dec = "\<lambda>t k a. Inl InvalidSignatureError" and cfg = "\<lparr>secret_key = ''k'', algorithm = ''HS256''\<rparr>"
      and f = "\<lambda>a s. (Inr (Return a), Suc s)" and args = "7::nat" and s = "0::nat"]
  by simp

text \<open>
  Claim C13. When \<open>jwt.decode\<close> raises an exception that is not a \<open>jwt.PyJWTError\<close>,
  the specification counts the token as invalid and rejects the call with 401 "Could not
  validate email". The decorator's \<open>except jwt.PyJWTError\<close> does not catch the
  exception, so the client sees status 500. The wrapped handler does not run and the
  state is kept.
\<close>

theorem protect_with_token_uncaught_decode_error:
  assumes "decode_escapes dec cfg body"
  shows "(gate_step dec cfg body)\<^sup>*\<^sup>* Received (Rejected 401 ''Could not validate email'')
       \<and> status_of d (fst (protect_with_token dec cfg f body args s)) = 500
       \<and> snd (protect_with_token dec cfg f body args s) = s"
proof -
  from assms obtain t e where tok: "spec_token body = Some t"
    and dec: "dec t (secret_key cfg) [algorithm cfg] = Inl (OtherException e)"
    by (rule decode_escapesE)
  have "gate_step dec cfg body Received (TokenPresent t)"
    using tok by (rule gate_step.token_present)
  moreover have "gate_step dec cfg body (TokenPresent t) (Rejected 401 ''Could not validate email'')"
    using dec by (rule gate_step.reject_invalid)
  ultimately have "(gate_step dec cfg body)\<^sup>*\<^sup>* Received (Rejected 401 ''Could not validate email'')"
    by (meson rtranclp.rtrancl_refl rtranclp.rtrancl_into_rtrancl)
  moreover have "protect_with_token dec cfg f body args s = (Inl e, s)"
    using tok dec by (rule protect_with_token_escapes)
  ultimately show ?thesis by simp
qed

theorem protect_with_token_uncaught_decode_error_witness:
  "decode_escapes (\<lambda>t k a. Inl (OtherException RecursionError)) \<lparr>secret_key = ''k'', algorithm = ''HS256''\<rparr>
      (Some (JObj [(''token'', JStr ''t'')])) \<and>
   (gate_step (\<lambda>t k a. Inl (OtherException RecursionError)) \<lparr>secret_key = ''k'', algorithm = ''HS256''\<rparr>
      (Some (JObj [(''token'', JStr ''t'')])))\<^sup>*\<^sup>* Received (Rejected 401 ''Could not validate email'') \<and>
   status_of 200 (fst (protect_with_token (\<lambda>t k a. Inl (OtherException RecursionError))
      \<lparr>secret_key = ''k'', algorithm = ''HS256''\<rparr> (\<lambda>a s. (Inr (Return a), Suc s))
      (Some (JObj [(''token'', JStr ''t'')])) (7::nat) (0::nat))) = 500"
proof -
  have e: "decode_escapes (\<lambda>t k a. Inl (OtherException RecursionError)) \<lparr>secret_key = ''k'', algorithm = ''HS256''\<rparr>
      (Some (JObj [(''token'', JStr ''t'')]))"
    by (simp add: decode_escapes_def)
  show ?thesis
    using e protect_with_token_uncaught_decode_error [OF e, where d = 200
        and f = "\<lambda>a s. (Inr (Return a), Suc s)" and args = "7::nat" and s = "0::nat"]
    by simp
qed

end
