(* ===== verification/Passwords.thy ===== *)
theory Passwords
  imports Jwt_Api
begin

text \<open>
  The credential hasher and the token issuer of \<open>src/utils/passwords.py\<close>:
  \<open>get_password_hash\<close> and \<open>verify_password\<close> call
  \<open>CryptContext(schemes=["bcrypt"])\<close> of passlib, and \<open>create_access_token\<close> calls
  \<open>jwt.encode\<close>. The bcrypt primitive itself (Blowfish key expansion) is a parameter
  \<open>H\<close> of type \<open>bcrypt_fn\<close>: given the cost field, the 22-character salt and the secret
  bytes, it yields the 31-character checksum. What passlib does around it is modelled:
  the size limit of 4096 bytes, the refusal of NUL bytes, the silent truncation to 72
  bytes, the \<open>$2b$12$\<close> format of a new hash, and the identification and parsing of a
  stored hash. The random salt of a new hash is an argument.
\<close>

type_synonym bcrypt_fn = "string \<Rightarrow> string \<Rightarrow> string \<Rightarrow> string"

section \<open>passlib's bcrypt handler\<close>

definition bcrypt64_chars :: string where
  "bcrypt64_chars = ''./ABCDEFGHIJKLMNOPQRSTUVWXYZabcdefghijklmnopqrstuvwxyz0123456789''"

definition is_bcrypt64 :: "string \<Rightarrow> bool" where
  "is_bcrypt64 s \<longleftrightarrow> (\<forall>c \<in> set s. c \<in> set bcrypt64_chars)"

text \<open>A salt that passlib generates or accepts: 22 characters of the bcrypt alphabet.\<close>

definition bcrypt_salt_ok :: "string \<Rightarrow> bool" where
  "bcrypt_salt_ok s \<longleftrightarrow> length s = 22 \<and> is_bcrypt64 s"

text \<open>What the primitive guarantees about its output: 31 characters of the alphabet.\<close>

definition bcrypt_fn_ok :: "bcrypt_fn \<Rightarrow> bool" where
  "bcrypt_fn_ok H \<longleftrightarrow> (\<forall>r s b. length (H r s b) = 31 \<and> is_bcrypt64 (H r s b))"

text \<open>
  \<open>validate_secret\<close> (\<open>passlib.utils.handlers\<close>): a secret above 4096 bytes raises
  \<open>PasswordSizeError\<close>. The bcrypt handler then refuses NUL bytes
  (\<open>NullPasswordError\<close>) and hands the backend the first 72 bytes of the UTF-8
  encoding. Both errors are \<open>ValueError\<close>s.
\<close>

definition validate_secret :: "string \<Rightarrow> py_exc + string" where
  "validate_secret pw =
     (let b = utf8_encode pw in
      if 4096 < length b then Inl (ValueError ''password exceeds 4096 bytes'') else Inr b)"

definition bcrypt_secret :: "string \<Rightarrow> py_exc + string" where
  "bcrypt_secret b =
     (if CHR 0x00 \<in> set b then Inl (ValueError ''bcrypt: password cannot contain NULL bytes'')
      else Inr (take 72 b))"

definition bcrypt_idents :: "string list" where
  "bcrypt_idents = [''$2$'', ''$2a$'', ''$2x$'', ''$2y$'', ''$2b$'']"

text \<open>\<open>str.split(sep)\<close> for a one-character separator.\<close>

fun py_split :: "char \<Rightarrow> string \<Rightarrow> string list" where
  "py_split c [] = [[]]"
| "py_split c (x # xs) =
     (if x = c then [] # py_split c xs
      else (case py_split c xs of w # ws \<Rightarrow> (x # w) # ws | [] \<Rightarrow> [[x]]))"

text \<open>
  The cost field: \<open>int(rounds_str)\<close> printed back with \<open>%02d\<close> must give the same text,
  and the cost must lie in 4 to 31.
\<close>

definition rounds_ok :: "string \<Rightarrow> bool" where
  "rounds_ok r \<longleftrightarrow>
     (case r of
        [d1, d2] \<Rightarrow>
          (let a = of_char d1 :: nat; b = of_char d2 :: nat; n = (a - 48) * 10 + (b - 48) in
           48 \<le> a \<and> a \<le> 57 \<and> 48 \<le> b \<and> b \<le> 57 \<and> 4 \<le> n \<and> n \<le> 31)
      | _ \<Rightarrow> False)"

section \<open>The two functions of passwords.py\<close>

text \<open>
  \<open>get_password_hash(password)\<close>, lines 12-13: \<open>pwd_context.hash(password)\<close> with the
  default ident \<open>$2b$\<close> and cost 12.
\<close>

definition get_password_hash :: "bcrypt_fn \<Rightarrow> string \<Rightarrow> string \<Rightarrow> py_exc + string" where
  "get_password_hash H salt password =
     (case validate_secret password of
        Inl e \<Rightarrow> Inl e
      | Inr b \<Rightarrow>
          (case bcrypt_secret b of
             Inl e \<Rightarrow> Inl e
           | Inr k \<Rightarrow> Inr (''$2b$12$'' @ salt @ H ''12'' salt k)))"

text \<open>
  \<open>verify_password(plain_password, hashed_password)\<close>, lines 8-9:
  \<open>pwd_context.verify\<close> identifies the scheme by the hash's prefix (\<open>ValueError\<close> when
  none matches), checks the secret's size, parses the cost field, salt and checksum
  (\<open>ValueError\<close> for a malformed hash or a missing checksum), refuses NUL bytes and
  compares the recomputed checksum with the stored one.
\<close>

definition verify_password :: "bcrypt_fn \<Rightarrow> string \<Rightarrow> string \<Rightarrow> py_exc + bool" where
  "verify_password H plain_password hashed_password =
     (case find (\<lambda>i. take (length i) hashed_password = i) bcrypt_idents of
        None \<Rightarrow> Inl (ValueError ''hash could not be identified'')
      | Some ident \<Rightarrow>
          (case validate_secret plain_password of
             Inl e \<Rightarrow> Inl e
           | Inr b \<Rightarrow>
               if ident = ''$2x$'' then Inl (ValueError ''2x hashes are not supported'')
               else
                 (case py_split CHR ''$'' (drop (length ident) hashed_password) of
                    [rounds_str, data] \<Rightarrow>
                      (let salt = take 22 data; chk = drop 22 data in
                       if \<not> rounds_ok rounds_str then Inl (ValueError ''malformed cost field'')
                       else if \<not> bcrypt_salt_ok salt then Inl (ValueError ''invalid salt'')
                       else if chk = [] then Inl (ValueError ''missing digest'')
                       else if \<not> (length chk = 31 \<and> is_bcrypt64 chk)
                         then Inl (ValueError ''invalid checksum'')
                       else
                         (case bcrypt_secret b of
                            Inl e \<Rightarrow> Inl e
                          | Inr k \<Rightarrow> Inr (H rounds_str salt k = chk)))
                  | _ \<Rightarrow> Inl (ValueError ''malformed bcrypt hash''))))"

text \<open>
  \<open>create_access_token(data)\<close>, lines 16-19: \<open>jwt.encode\<close> of a copy of the claims with
  the configured key and algorithm.
\<close>

definition create_access_token :: "jwt_encoder \<Rightarrow> settings \<Rightarrow> jobj \<Rightarrow> py_exc + string" where
  "create_access_token enc cfg data = enc data (secret_key cfg) (algorithm cfg)"

text \<open>
  The shape of every hash \<open>get_password_hash\<close> returns: the \<open>$2b$12$\<close> prefix, a salt
  and a 31-character checksum, 60 characters in all.
\<close>

definition issued_hash :: "string \<Rightarrow> bool" where
  "issued_hash h \<longleftrightarrow>
     take 7 h = ''$2b$12$'' \<and> length h = 60 \<and> bcrypt_salt_ok (take 22 (drop 7 h)) \<and>
     is_bcrypt64 (drop 29 h)"

section \<open>Lemmas\<close>

lemma py_split_no_sep: "c \<notin> set s \<Longrightarrow> py_split c s = [s]"
  by (induction s) auto

lemma py_split_append_sep:
  "c \<notin> set s \<Longrightarrow> py_split c (s @ c # t) = s # py_split c t"
  by (induction s) auto

lemma dollar_not_bcrypt64: "CHR ''$'' \<notin> set bcrypt64_chars"
  by (simp add: bcrypt64_chars_def)

lemma is_bcrypt64_no_dollar: "is_bcrypt64 s \<Longrightarrow> CHR ''$'' \<notin> set s"
  using dollar_not_bcrypt64 unfolding is_bcrypt64_def by blast

lemma rounds_ok_12 [simp]: "rounds_ok ''12''"
  by (simp add: rounds_ok_def)

lemma find_bcrypt_ident_2b:
  "find (\<lambda>i. take (length i) (''$2b$12$'' @ t) = i) bcrypt_idents = Some ''$2b$''"
  by (simp add: bcrypt_idents_def)

lemma get_password_hash_Inr:
  "get_password_hash H salt pw = Inr h \<longleftrightarrow>
     (\<exists>b k. validate_secret pw = Inr b \<and> bcrypt_secret b = Inr k \<and>
            h = ''$2b$12$'' @ salt @ H ''12'' salt k)"
  by (auto simp: get_password_hash_def split: sum.splits)

lemma rounds_ok_no_dollar: "rounds_ok r \<Longrightarrow> CHR ''$'' \<notin> set r"
  by (auto simp: rounds_ok_def Let_def split: list.splits)

lemma find_bcrypt_ident:
  assumes "ident \<in> set [''$2$'', ''$2a$'', ''$2x$'', ''$2y$'', ''$2b$'']"
  shows "find (\<lambda>i. take (length i) (ident @ t) = i) bcrypt_idents = Some ident"
  using assms by (auto simp: bcrypt_idents_def)

text \<open>
  The central computation: a well-formed hash of one of the supported idents parses back
  into its cost field, its salt and its checksum, and verification recomputes the
  checksum from the candidate with that cost and that salt.
\<close>

lemma verify_password_parse:
  assumes ident: "ident \<in> set [''$2$'', ''$2a$'', ''$2y$'', ''$2b$'']" and r: "rounds_ok r"
    and salt: "bcrypt_salt_ok salt" and c: "length chk = 31" "is_bcrypt64 chk"
  shows "verify_password H pw (ident @ r @ CHR ''$'' # salt @ chk) =
           (case validate_secret pw of
              Inl e \<Rightarrow> Inl e
            | Inr b \<Rightarrow> (case bcrypt_secret b of Inl e \<Rightarrow> Inl e | Inr k' \<Rightarrow> Inr (H r salt k' = chk)))"
proof -
  from salt have s: "length salt = 22" "is_bcrypt64 salt" by (auto simp: bcrypt_salt_ok_def)
  have nd: "CHR ''$'' \<notin> set (salt @ chk)"
    using c(2) s(2) by (auto dest: is_bcrypt64_no_dollar)
  have split: "py_split CHR ''$'' (r @ CHR ''$'' # salt @ chk) = [r, salt @ chk]"
    using py_split_append_sep [OF rounds_ok_no_dollar [OF r]] py_split_no_sep [OF nd] by simp
  have f: "find (\<lambda>i. take (length i) (ident @ r @ CHR ''$'' # salt @ chk) = i) bcrypt_idents = Some ident"
    using ident by (intro find_bcrypt_ident) auto
  have x: "ident \<noteq> ''$2x$''" using ident by auto
  have "chk \<noteq> []" using c(1) by auto
  with s c salt r x show ?thesis
    by (simp only: verify_password_def f) (simp add: split split: sum.split)
qed

lemma verify_password_wellformed:
  assumes salt: "bcrypt_salt_ok salt" and c: "length chk = 31" "is_bcrypt64 chk"
  shows "verify_password H pw (''$2b$12$'' @ salt @ chk) =
           (case validate_secret pw of
              Inl e \<Rightarrow> Inl e
            | Inr b \<Rightarrow> (case bcrypt_secret b of Inl e \<Rightarrow> Inl e | Inr k' \<Rightarrow> Inr (H ''12'' salt k' = chk)))"
  using verify_password_parse [of "''$2b$''" "''12''" salt chk H pw] assms by simp

lemma verify_password_new_hash:
  assumes H: "bcrypt_fn_ok H" and salt: "bcrypt_salt_ok salt"
  shows "verify_password H pw (''$2b$12$'' @ salt @ H ''12'' salt k) =
           (case validate_secret pw of
              Inl e \<Rightarrow> Inl e
            | Inr b \<Rightarrow> (case bcrypt_secret b of Inl e \<Rightarrow> Inl e | Inr k' \<Rightarrow> Inr (H ''12'' salt k' = H ''12'' salt k)))"
  using H by (intro verify_password_wellformed [OF salt]) (auto simp: bcrypt_fn_ok_def)

lemma validate_secret_Inr:
  "validate_secret pw = Inr b \<longleftrightarrow> b = utf8_encode pw \<and> length b \<le> 4096"
  by (auto simp: validate_secret_def Let_def)

lemma bcrypt_secret_Inr:
  "bcrypt_secret b = Inr k \<longleftrightarrow> CHR 0x00 \<notin> set b \<and> k = take 72 b"
  by (auto simp: bcrypt_secret_def)

lemma get_password_hash_Inr_iff:
  "get_password_hash H salt pw = Inr h \<longleftrightarrow>
     length (utf8_encode pw) \<le> 4096 \<and> CHR 0x00 \<notin> set (utf8_encode pw) \<and>
     h = ''$2b$12$'' @ salt @ H ''12'' salt (take 72 (utf8_encode pw))"
  by (auto simp: get_password_hash_Inr validate_secret_Inr bcrypt_secret_Inr)

lemma verify_password_hash_of:
  assumes "bcrypt_fn_ok H" and "bcrypt_salt_ok salt" and "get_password_hash H salt pw = Inr h"
    and "length (utf8_encode cand) \<le> 4096" and "CHR 0x00 \<notin> set (utf8_encode cand)"
  shows "verify_password H cand h =
           Inr (H ''12'' salt (take 72 (utf8_encode cand)) = H ''12'' salt (take 72 (utf8_encode pw)))"
proof -
  from assms(3) have h: "h = ''$2b$12$'' @ salt @ H ''12'' salt (take 72 (utf8_encode pw))"
    by (simp add: get_password_hash_Inr_iff)
  from assms(4) have v: "validate_secret cand = Inr (utf8_encode cand)"
    by (simp add: validate_secret_Inr)
  from assms(5) have b: "bcrypt_secret (utf8_encode cand) = Inr (take 72 (utf8_encode cand))"
    by (simp add: bcrypt_secret_Inr)
  show ?thesis
    unfolding h verify_password_new_hash [OF assms(1,2)] v by (simp add: b)
qed

lemma issued_hash_split:
  assumes "issued_hash h"
  shows "h = ''$2b$12$'' @ take 22 (drop 7 h) @ drop 29 h" and "length (drop 29 h) = 31"
proof -
  have "drop 22 (drop 7 h) = drop 29 h" by simp
  then have "drop 7 h = take 22 (drop 7 h) @ drop 29 h"
    by (metis append_take_drop_id)
  then have "h = take 7 h @ take 22 (drop 7 h) @ drop 29 h"
    by (metis append_take_drop_id)
  then show "h = ''$2b$12$'' @ take 22 (drop 7 h) @ drop 29 h"
    using assms by (simp add: issued_hash_def)
  show "length (drop 29 h) = 31" using assms by (simp add: issued_hash_def)
qed

lemma issued_hash_of:
  assumes "bcrypt_fn_ok H" and "bcrypt_salt_ok salt" and "get_password_hash H salt pw = Inr h"
  shows "issued_hash h"
proof -
  from assms(3) obtain k where h: "h = ''$2b$12$'' @ salt @ H ''12'' salt k"
    by (auto simp: get_password_hash_Inr)
  have "length salt = 22" using assms(2) by (simp add: bcrypt_salt_ok_def)
  moreover have "length (H ''12'' salt k) = 31" "is_bcrypt64 (H ''12'' salt k)"
    using assms(1) by (auto simp: bcrypt_fn_ok_def)
  ultimately show ?thesis using assms(2) by (simp add: issued_hash_def h)
qed

lemma verify_password_issued:
  assumes "issued_hash h"
  shows "verify_password H pw h =
           (case validate_secret pw of
              Inl e \<Rightarrow> Inl e
            | Inr b \<Rightarrow> (case bcrypt_secret b of Inl e \<Rightarrow> Inl e
                                           | Inr k \<Rightarrow> Inr (H ''12'' (take 22 (drop 7 h)) k = drop 29 h)))"
proof -
  have "bcrypt_salt_ok (take 22 (drop 7 h))" and "is_bcrypt64 (drop 29 h)"
    using assms by (auto simp: issued_hash_def)
  then show ?thesis
    using verify_password_wellformed [of "take 22 (drop 7 h)" "drop 29 h" H pw] issued_hash_split [OF assms]
    by simp
qed

text \<open>On a hash of that shape, verification returns a boolean for every admissible candidate.\<close>

lemma verify_password_issued_total:
  assumes "issued_hash h" and "length (utf8_encode pw) \<le> 4096" and "CHR 0x00 \<notin> set (utf8_encode pw)"
  shows "\<exists>b. verify_password H pw h = Inr b"
  using assms by (simp add: verify_password_issued validate_secret_def bcrypt_secret_def Let_def)

section \<open>Properties of the hasher\<close>

text \<open>
  Claim C5. A password verifies against the hash that \<open>get_password_hash\<close> made of it:
  hashing and verification round-trip for every salt passlib generates and every
  primitive with bcrypt's output format.
\<close>

theorem verify_password_roundtrip:
  assumes "bcrypt_fn_ok H" and "bcrypt_salt_ok salt" and "get_password_hash H salt pw = Inr h"
  shows "verify_password H pw h = Inr True"
proof -
  from assms(3) have "length (utf8_encode pw) \<le> 4096" and "CHR 0x00 \<notin> set (utf8_encode pw)"
    by (simp_all add: get_password_hash_Inr_iff)
  from verify_password_hash_of [OF assms this] show ?thesis by simp
qed

theorem verify_password_roundtrip_witness:
  "bcrypt_fn_ok (\<lambda>r s b. replicate 31 CHR ''.'') \<and> bcrypt_salt_ok (replicate 22 CHR ''a'') \<and>
   get_password_hash (\<lambda>r s b. replicate 31 CHR ''.'') (replicate 22 CHR ''a'') ''password1234'' =
     Inr (''$2b$12$'' @ replicate 22 CHR ''a'' @ replicate 31 CHR ''.'') \<and>
   verify_password (\<lambda>r s b. replicate 31 CHR ''.'') ''password1234''
     (''$2b$12$'' @ replicate 22 CHR ''a'' @ replicate 31 CHR ''.'') = Inr True"
proof -
  have H: "bcrypt_fn_ok (\<lambda>r s b. replicate 31 CHR ''.'')"
    by (simp add: bcrypt_fn_ok_def is_bcrypt64_def bcrypt64_chars_def)
  have S: "bcrypt_salt_ok (replicate 22 CHR ''a'')"
    by (simp add: bcrypt_salt_ok_def is_bcrypt64_def bcrypt64_chars_def)
  have G: "get_password_hash (\<lambda>r s b. replicate 31 CHR ''.'') (replicate 22 CHR ''a'') ''password1234'' =
     Inr (''$2b$12$'' @ replicate 22 CHR ''a'' @ replicate 31 CHR ''.'')"
    by (simp add: get_password_hash_def validate_secret_def bcrypt_secret_def)
  show ?thesis using H S G verify_password_roundtrip [OF H S G] by simp
qed

text \<open>
  Claim C6. The specification promises that a wrong password is rejected; the code
  accepts every candidate whose UTF-8 encoding shares its first 72 bytes with the
  registered password (and is itself acceptable to passlib), whatever the rest of it,
  because passlib truncates bcrypt secrets to 72 bytes silently.
\<close>

theorem verify_password_truncation:
  assumes "bcrypt_fn_ok H" and "bcrypt_salt_ok salt" and "get_password_hash H salt pw = Inr h"
    and "take 72 (utf8_encode cand) = take 72 (utf8_encode pw)"
    and "length (utf8_encode cand) \<le> 4096" and "CHR 0x00 \<notin> set (utf8_encode cand)"
  shows "verify_password H cand h = Inr True"
  using verify_password_hash_of [OF assms(1-3) assms(5,6)] assms(4) by simp

theorem verify_password_truncation_witness:
  "bcrypt_fn_ok (\<lambda>r s b. replicate 31 CHR ''.'') \<and> bcrypt_salt_ok (replicate 22 CHR ''a'') \<and>
   get_password_hash (\<lambda>r s b. replicate 31 CHR ''.'') (replicate 22 CHR ''a'') (replicate 72 CHR ''p'' @ ''1'') =
     Inr (''$2b$12$'' @ replicate 22 CHR ''a'' @ replicate 31 CHR ''.'') \<and>
   take 72 (utf8_encode (replicate 72 CHR ''p'' @ ''2'')) = take 72 (utf8_encode (replicate 72 CHR ''p'' @ ''1'')) \<and>
   length (utf8_encode (replicate 72 CHR ''p'' @ ''2'')) \<le> 4096 \<and>
   CHR 0x00 \<notin> set (utf8_encode (replicate 72 CHR ''p'' @ ''2'')) \<and>
   replicate 72 CHR ''p'' @ ''2'' \<noteq> replicate 72 CHR ''p'' @ ''1'' \<and>
   verify_password (\<lambda>r s b. replicate 31 CHR ''.'') (replicate 72 CHR ''p'' @ ''2'')
     (''$2b$12$'' @ replicate 22 CHR ''a'' @ replicate 31 CHR ''.'') = Inr True"
proof -
  have H: "bcrypt_fn_ok (\<lambda>r s b. replicate 31 CHR ''.'')"
    by (simp add: bcrypt_fn_ok_def is_bcrypt64_def bcrypt64_chars_def)
  have S: "bcrypt_salt_ok (replicate 22 CHR ''a'')"
    by (simp add: bcrypt_salt_ok_def is_bcrypt64_def bcrypt64_chars_def)
  have a: "utf8_encode (replicate n CHR ''p'') = replicate n CHR ''p''" for n
    by (induction n) simp_all
  have G: "get_password_hash (\<lambda>r s b. replicate 31 CHR ''.'') (replicate 22 CHR ''a'') (replicate 72 CHR ''p'' @ ''1'') =
     Inr (''$2b$12$'' @ replicate 22 CHR ''a'' @ replicate 31 CHR ''.'')"
    by (simp add: get_password_hash_def validate_secret_def bcrypt_secret_def a)
  have T: "take 72 (utf8_encode (replicate 72 CHR ''p'' @ ''2'')) = take 72 (utf8_encode (replicate 72 CHR ''p'' @ ''1''))"
    by (simp add: a)
  have L: "length (utf8_encode (replicate 72 CHR ''p'' @ ''2'')) \<le> 4096" by (simp add: a)
  have N: "CHR 0x00 \<notin> set (utf8_encode (replicate 72 CHR ''p'' @ ''2''))" by (simp add: a)
  show ?thesis using H S G T L N verify_password_truncation [OF H S G T L N] by simp
qed



text \<open>
  Claim C8. The specification says verification against a corrupted or foreign hash
  returns false; the code raises \<open>ValueError\<close> for every stored value without a bcrypt
  prefix, such as a password stored in plain text.
\<close>

theorem verify_password_unidentified:
  assumes "\<forall>i \<in> set bcrypt_idents. take (length i) h \<noteq> i"
  shows "verify_password H pw h = Inl (ValueError ''hash could not be identified'')"
proof -
  from assms have "find (\<lambda>i. take (length i) h = i) bcrypt_idents = None"
    by (simp add: find_None_iff)
  then show ?thesis by (simp add: verify_password_def)
qed

theorem verify_password_unidentified_witness:
  "verify_password (\<lambda>r s b. replicate 31 CHR ''.'') ''11111111111'' ''11111111111'' =
     Inl (ValueError ''hash could not be identified'')"
proof -
  have U: "\<forall>i \<in> set bcrypt_idents. take (length i) ''11111111111'' \<noteq> i"
    by (simp add: bcrypt_idents_def)
  show ?thesis using verify_password_unidentified [OF U] by simp
qed

end
