(* ===== verification/Store.thy ===== *)
theory Store
  imports Prelude
begin

text \<open>
  The persistent state: the \<open>sellers_table\<close> of \<open>src/models/sellers.py\<close> and the books
  table it owns through the \<open>books\<close> relationship (with \<open>cascade="all, delete-orphan"\<close>).
  A table is a list of rows in insertion order, which is the order in which an unordered
  \<open>select\<close> returns them in the model. \<open>next_seller_id\<close> and \<open>next_book_id\<close> are the
  autoincrement counters of the primary keys. The \<open>email\<close> column has the type
  \<open>EmailType\<close> of sqlalchemy_utils, whose \<open>process_bind_param\<close> lowercases every value
  written to it or compared with it, so a stored email is lowercase.
\<close>

text \<open>\<open>class Seller\<close>, lines 9-17 (the \<open>books\<close> relationship is the \<open>books_table\<close> below).\<close>

record seller =
  seller_id :: nat
  seller_first_name :: string
  seller_last_name :: string
  seller_email :: string
  seller_password :: string

text \<open>
  \<open>class Book\<close> (\<open>src/models/books.py\<close>, not among the sources): the columns the seller
  routes and the tests use.
\<close>

record book =
  book_id :: nat
  book_title :: string
  book_author :: string
  book_year :: int
  book_count_pages :: int
  book_seller_id :: nat

record db =
  sellers_table :: "seller list"
  books_table :: "book list"
  next_seller_id :: nat
  next_book_id :: nat

definition empty_db :: db where
  "empty_db = \<lparr>sellers_table = [], books_table = [], next_seller_id = 1, next_book_id = 1\<rparr>"

text \<open>\<open>EmailType.process_bind_param\<close>: the value as it is stored or compared.\<close>

definition email_bind :: "string \<Rightarrow> string" where
  "email_bind e = py_lower e"

text \<open>
  \<open>session.get(Seller, seller_id)\<close> with the path parameter \<open>seller_id: int\<close>: the row
  with that primary key, if any.
\<close>

definition get_seller_row :: "db \<Rightarrow> int \<Rightarrow> seller option" where
  "get_seller_row d i = find (\<lambda>r. int (seller_id r) = i) (sellers_table d)"

text \<open>
  \<open>select(Seller).where(Seller.email == email)\<close> followed by
  \<open>.scalars().first()\<close>: the first row whose stored email equals the bound value.
\<close>

definition first_seller_with_email :: "db \<Rightarrow> string \<Rightarrow> seller option" where
  "first_seller_with_email d e = find (\<lambda>r. seller_email r = email_bind e) (sellers_table d)"

text \<open>
  The integrity of the tables: primary keys are distinct, positive and below the
  counter; a stored email is in the lowercase form \<open>EmailType\<close> binds; a book's
  \<open>seller_id\<close> refers to a stored seller (the foreign key).
\<close>

definition db_inv :: "db \<Rightarrow> bool" where
  "db_inv d \<longleftrightarrow>
     0 < next_seller_id d \<and> distinct (map seller_id (sellers_table d)) \<and>
     list_all (\<lambda>r. 0 < seller_id r \<and> seller_id r < next_seller_id d \<and>
                    email_bind (seller_email r) = seller_email r) (sellers_table d) \<and>
     distinct (map book_id (books_table d)) \<and>
     list_all (\<lambda>b. 0 < book_id b \<and> book_id b < next_book_id d \<and>
                    book_seller_id b \<in> set (map seller_id (sellers_table d))) (books_table d)"

lemma db_inv_empty [simp]: "db_inv empty_db"
  by (simp add: db_inv_def empty_db_def)

lemma first_seller_with_email_Some:
  "first_seller_with_email d e = Some r \<Longrightarrow>
   r \<in> set (sellers_table d) \<and> seller_email r = email_bind e"
  by (auto simp: first_seller_with_email_def dest: find_Some_iff [THEN iffD1])

lemma get_seller_row_Some:
  "get_seller_row d i = Some r \<Longrightarrow> r \<in> set (sellers_table d) \<and> int (seller_id r) = i"
  by (auto simp: get_seller_row_def dest: find_Some_iff [THEN iffD1])

lemma email_bind_idem [simp]: "email_bind (email_bind e) = email_bind e"
  by (simp add: email_bind_def)

lemma find_after_misses:
  "P r \<Longrightarrow> (\<forall>x \<in> set xs. \<not> P x) \<Longrightarrow> find P (xs @ r # ys) = Some r"
  by (induction xs) auto

lemma first_seller_with_email_first:
  "sellers_table d = xs @ r # ys \<Longrightarrow> seller_email r = email_bind e \<Longrightarrow>
   (\<forall>x \<in> set xs. seller_email x \<noteq> email_bind e) \<Longrightarrow> first_seller_with_email d e = Some r"
  by (simp add: first_seller_with_email_def find_after_misses)

end
