(* ===== verification/Login.thy ===== *)
theory Login
  imports Passwords Store
begin

text \<open>
  The login route, \<open>login_for_access_token\<close> of \<open>src/routers/v1/token.py\<close> (route
  \<open>POST /token/\<close>, declared status 201), with its request schema \<open>IncomingData\<close> of
  \<open>src/schemas/token.py\<close>. The route reads the seller table and writes nothing; its
  outcome is the \<open>{"token": ...}\<close> dict, a 401 response, or an exception escaping from
  passlib or PyJWT.
\<close>

text \<open>\<open>class IncomingData\<close>, lines 6-8.\<close>

record incoming_data =
  data_email :: string
  data_password :: string

text \<open>
  Lines 16-29. The condition \<open>not seller or not verify_password(...)\<close> short-circuits:
  the password is only checked against the first seller with the email. The token's
  subject is the email as the client typed it, not the stored (lowercased) one.
\<close>

definition login_for_access_token ::
  "bcrypt_fn \<Rightarrow> jwt_encoder \<Rightarrow> settings \<Rightarrow> incoming_data \<Rightarrow> db \<Rightarrow> jobj outcome"
where
  "login_for_access_token H enc cfg data d =
     (let email = data_email data; password = data_password data in
      case first_seller_with_email d email of
        None \<Rightarrow> Inr (Response 401 ''Incorrect email or password'')
      | Some seller \<Rightarrow>
          (case verify_password H password (seller_password seller) of
             Inl e \<Rightarrow> Inl e
           | Inr ok \<Rightarrow>
               if \<not> ok then Inr (Response 401 ''Incorrect email or password'')
               else
                 (case create_access_token enc cfg [(''sub'', JStr email)] of
                    Inl e \<Rightarrow> Inl e
                  | Inr access_token \<Rightarrow> Inr (Return [(''token'', JStr access_token)]))))"

text \<open>The route's declared status.\<close>

definition login_status :: nat where
  "login_status = 201"

section \<open>Concrete instances for the witnesses\<close>

text \<open>
  A bcrypt primitive whose checksum tells \<open>password1234\<close> apart from every other
  secret, a token encoder, the configuration, and sellers whose stored hashes use the
  salt \<open>ssss...\<close>.
\<close>

abbreviation demo_bcrypt :: bcrypt_fn where
  "demo_bcrypt \<equiv> \<lambda>r s b. replicate 31 (if b = ''password1234'' then CHR ''a'' else CHR ''b'')"

abbreviation demo_encoder :: jwt_encoder where
  "demo_encoder \<equiv> \<lambda>c k a. Inr (''t.'' @ (case c of [(n, JStr e)] \<Rightarrow> e | _ \<Rightarrow> []))"

abbreviation demo_settings :: settings where
  "demo_settings \<equiv> \<lparr>secret_key = ''secret'', algorithm = ''HS256''\<rparr>"

abbreviation demo_seller :: "nat \<Rightarrow> string \<Rightarrow> seller" where
  "demo_seller i h \<equiv> \<lparr>seller_id = i, seller_first_name = ''1'', seller_last_name = ''2'',
                       seller_email = ''a@b.com'', seller_password = h\<rparr>"

abbreviation demo_hash :: "char \<Rightarrow> string" where
  "demo_hash c \<equiv> ''$2b$12$'' @ replicate 22 CHR ''s'' @ replicate 31 c"

section \<open>Lemmas\<close>

lemma login_Return:
  "login_for_access_token H enc cfg data d = Inr (Return v) \<longleftrightarrow>
     (\<exists>r t. first_seller_with_email d (data_email data) = Some r \<and>
            verify_password H (data_password data) (seller_password r) = Inr True \<and>
            create_access_token enc cfg [(''sub'', JStr (data_email data))] = Inr t \<and>
            v = [(''token'', JStr t)])"
  by (auto simp: login_for_access_token_def Let_def split: option.splits sum.splits)

lemma login_Response:
  "login_for_access_token H enc cfg data d = Inr (Response st m) \<longleftrightarrow>
     st = 401 \<and> m = ''Incorrect email or password'' \<and>
     (first_seller_with_email d (data_email data) = None \<or>
      (\<exists>r. first_seller_with_email d (data_email data) = Some r \<and>
           verify_password H (data_password data) (seller_password r) = Inr False))"
  by (auto simp: login_for_access_token_def Let_def split: option.splits sum.splits)

lemma demo_bcrypt_ok: "bcrypt_fn_ok demo_bcrypt"
  by (simp add: bcrypt_fn_ok_def is_bcrypt64_def bcrypt64_chars_def)

lemma demo_salt_ok: "bcrypt_salt_ok (replicate 22 CHR ''s'')"
  by (simp add: bcrypt_salt_ok_def is_bcrypt64_def bcrypt64_chars_def)

lemma login_verified:
  assumes "first_seller_with_email d (data_email data) = Some r"
    and "verify_password H (data_password data) (seller_password r) = Inr ok"
    and "create_access_token enc cfg [(''sub'', JStr (data_email data))] = Inr t"
  shows "login_for_access_token H enc cfg data d =
           (if ok then Inr (Return [(''token'', JStr t)]) else Inr (Response 401 ''Incorrect email or password''))"
  using assms by (simp add: login_for_access_token_def Let_def)

section \<open>Properties of the login route\<close>

text \<open>
  Claim C9. A seller whose stored password is the hash \<open>get_password_hash\<close> made of
  \<open>pw\<close>, and who is the first seller with the given email, logs in with \<open>pw\<close>: the route
  answers 201 with the token that \<open>create_access_token\<close> issues for the email exactly as
  the client typed it.
\<close>

theorem login_registered_seller:
  assumes "bcrypt_fn_ok H" and "bcrypt_salt_ok salt" and "get_password_hash H salt pw = Inr h"
    and "first_seller_with_email d e = Some r" and "seller_password r = h"
    and "create_access_token enc cfg [(''sub'', JStr e)] = Inr t"
  shows "login_for_access_token H enc cfg \<lparr>data_email = e, data_password = pw\<rparr> d =
           Inr (Return [(''token'', JStr t)])
       \<and> status_of login_status (login_for_access_token H enc cfg \<lparr>data_email = e, data_password = pw\<rparr> d) = 201"
proof -
  from assms(3) have "length (utf8_encode pw) \<le> 4096" and "CHR 0x00 \<notin> set (utf8_encode pw)"
    by (simp_all add: get_password_hash_Inr_iff)
  from verify_password_hash_of [OF assms(1-3) this] assms(5)
  have "verify_password H pw (seller_password r) = Inr True" by simp
  with assms(4,6) show ?thesis
    by (simp add: login_for_access_token_def login_status_def)
qed

theorem login_registered_seller_witness:
  "bcrypt_fn_ok demo_bcrypt \<and> bcrypt_salt_ok (replicate 22 CHR ''s'') \<and>
   get_password_hash demo_bcrypt (replicate 22 CHR ''s'') ''password1234'' = Inr (demo_hash CHR ''a'') \<and>
   first_seller_with_email \<lparr>sellers_table = [demo_seller 1 (demo_hash CHR ''a'')], books_table = [],
       next_seller_id = 2, next_book_id = 1\<rparr> ''A@b.com'' = Some (demo_seller 1 (demo_hash CHR ''a'')) \<and>
   create_access_token demo_encoder demo_settings [(''sub'', JStr ''A@b.com'')] = Inr ''t.A@b.com'' \<and>
   login_for_access_token demo_bcrypt demo_encoder demo_settings
     \<lparr>data_email = ''A@b.com'', data_password = ''password1234''\<rparr>
     \<lparr>sellers_table = [demo_seller 1 (demo_hash CHR ''a'')], books_table = [],
       next_seller_id = 2, next_book_id = 1\<rparr> = Inr (Return [(''token'', JStr ''t.A@b.com'')])"
proof -
  have G: "get_password_hash demo_bcrypt (replicate 22 CHR ''s'') ''password1234'' = Inr (demo_hash CHR ''a'')"
    by (simp add: get_password_hash_def validate_secret_def bcrypt_secret_def)
  have F: "first_seller_with_email \<lparr>sellers_table = [demo_seller 1 (demo_hash CHR ''a'')], books_table = [],
       next_seller_id = 2, next_book_id = 1\<rparr> ''A@b.com'' = Some (demo_seller 1 (demo_hash CHR ''a''))"
    by code_simp
  have T: "create_access_token demo_encoder demo_settings [(''sub'', JStr ''A@b.com'')] = Inr ''t.A@b.com''"
    by (simp add: create_access_token_def)
  have P: "seller_password (demo_seller 1 (demo_hash CHR ''a'')) = demo_hash CHR ''a''" by simp
  show ?thesis
    using demo_bcrypt_ok demo_salt_ok G F T
      login_registered_seller [OF demo_bcrypt_ok demo_salt_ok G F P T] by simp
qed

text \<open>
  Claim C10. Login does not reveal whether an email is registered: a request whose email
  matches no seller and a request whose password fails the check against the matching
  seller's hash get the same outcome, the 401 response "Incorrect email or password".
\<close>

theorem login_failures_indistinguishable:
  assumes "first_seller_with_email d (data_email data) = None"
    and "first_seller_with_email d' (data_email data') = Some r"
    and "verify_password H' (data_password data') (seller_password r) = Inr False"
  shows "login_for_access_token H enc cfg data d = login_for_access_token H' enc' cfg' data' d'
       \<and> login_for_access_token H enc cfg data d = Inr (Response 401 ''Incorrect email or password'')"
  using assms by (simp add: login_for_access_token_def)

theorem login_failures_indistinguishable_witness:
  "first_seller_with_email \<lparr>sellers_table = [demo_seller 1 (demo_hash CHR ''a'')], books_table = [],
       next_seller_id = 2, next_book_id = 1\<rparr> ''nobody@b.com'' = None \<and>
   first_seller_with_email \<lparr>sellers_table = [demo_seller 1 (demo_hash CHR ''a'')], books_table = [],
       next_seller_id = 2, next_book_id = 1\<rparr> ''a@b.com'' = Some (demo_seller 1 (demo_hash CHR ''a'')) \<and>
   verify_password demo_bcrypt ''wrong'' (demo_hash CHR ''a'') = Inr False \<and>
   login_for_access_token demo_bcrypt demo_encoder demo_settings
     \<lparr>data_email = ''nobody@b.com'', data_password = ''password1234''\<rparr>
     \<lparr>sellers_table = [demo_seller 1 (demo_hash CHR ''a'')], books_table = [],
       next_seller_id = 2, next_book_id = 1\<rparr> =
   login_for_access_token demo_bcrypt demo_encoder demo_settings
     \<lparr>data_email = ''a@b.com'', data_password = ''wrong''\<rparr>
     \<lparr>sellers_table = [demo_seller 1 (demo_hash CHR ''a'')], books_table = [],
       next_seller_id = 2, next_book_id = 1\<rparr>"
proof -
  let ?d = "\<lparr>sellers_table = [demo_seller 1 (demo_hash CHR ''a'')], books_table = [],
       next_seller_id = 2, next_book_id = 1\<rparr>"
  have N: "first_seller_with_email ?d (data_email \<lparr>data_email = ''nobody@b.com'', data_password = ''password1234''\<rparr>) = None"
    by code_simp
  have S: "first_seller_with_email ?d (data_email \<lparr>data_email = ''a@b.com'', data_password = ''wrong''\<rparr>) =
             Some (demo_seller 1 (demo_hash CHR ''a''))"
    by code_simp
  have V: "verify_password demo_bcrypt (data_password \<lparr>data_email = ''a@b.com'', data_password = ''wrong''\<rparr>)
             (seller_password (demo_seller 1 (demo_hash CHR ''a''))) = Inr False"
    using verify_password_new_hash [OF demo_bcrypt_ok demo_salt_ok, of "''wrong''" "''password1234''"]
    by (simp add: validate_secret_def bcrypt_secret_def)
  show ?thesis
    using N S V login_failures_indistinguishable [OF N S V, where H = demo_bcrypt and enc = demo_encoder
        and cfg = demo_settings and enc' = demo_encoder and cfg' = demo_settings]
    by simp
qed

text \<open>
  Claim C11. Only the first seller with the requested email takes part in a login: the
  outcome is the same as on a table that holds that seller alone. Emails are not unique
  in the table (the tests insert two sellers with the same email), so a later seller
  with a duplicated email cannot log in with their own password.
\<close>

theorem login_first_match_only:
  assumes "first_seller_with_email d (data_email data) = Some r"
  shows "login_for_access_token H enc cfg data d =
           login_for_access_token H enc cfg data (d\<lparr>sellers_table := [r]\<rparr>)"
proof -
  from first_seller_with_email_Some [OF assms] have "seller_email r = email_bind (data_email data)"
    by simp
  then have "first_seller_with_email (d\<lparr>sellers_table := [r]\<rparr>) (data_email data) = Some r"
    by (simp add: first_seller_with_email_def)
  with assms show ?thesis
    by (simp add: login_for_access_token_def Let_def)
qed

theorem login_first_match_only_witness:
  "first_seller_with_email \<lparr>sellers_table = [demo_seller 1 (demo_hash CHR ''a''), demo_seller 2 (demo_hash CHR ''b'')],
       books_table = [], next_seller_id = 3, next_book_id = 1\<rparr> ''a@b.com'' = Some (demo_seller 1 (demo_hash CHR ''a'')) \<and>
   verify_password demo_bcrypt ''another-pass'' (demo_hash CHR ''b'') = Inr True \<and>
   login_for_access_token demo_bcrypt demo_encoder demo_settings
     \<lparr>data_email = ''a@b.com'', data_password = ''another-pass''\<rparr>
     \<lparr>sellers_table = [demo_seller 1 (demo_hash CHR ''a''), demo_seller 2 (demo_hash CHR ''b'')],
       books_table = [], next_seller_id = 3, next_book_id = 1\<rparr> =
   login_for_access_token demo_bcrypt demo_encoder demo_settings
     \<lparr>data_email = ''a@b.com'', data_password = ''another-pass''\<rparr>
     \<lparr>sellers_table = [demo_seller 1 (demo_hash CHR ''a'')],
       books_table = [], next_seller_id = 3, next_book_id = 1\<rparr> \<and>
   login_for_access_token demo_bcrypt demo_encoder demo_settings
     \<lparr>data_email = ''a@b.com'', data_password = ''another-pass''\<rparr>
     \<lparr>sellers_table = [demo_seller 1 (demo_hash CHR ''a''), demo_seller 2 (demo_hash CHR ''b'')],
       books_table = [], next_seller_id = 3, next_book_id = 1\<rparr> =
     Inr (Response 401 ''Incorrect email or password'')"
proof -
  let ?d = "\<lparr>sellers_table = [demo_seller 1 (demo_hash CHR ''a''), demo_seller 2 (demo_hash CHR ''b'')],
       books_table = [], next_seller_id = 3, next_book_id = 1\<rparr>"
  let ?q = "\<lparr>data_email = ''a@b.com'', data_password = ''another-pass''\<rparr>"
  have F: "first_seller_with_email ?d (data_email ?q) = Some (demo_seller 1 (demo_hash CHR ''a''))"
    by code_simp
  have V2: "verify_password demo_bcrypt ''another-pass'' (demo_hash CHR ''b'') = Inr True"
    using verify_password_new_hash [OF demo_bcrypt_ok demo_salt_ok, of "''another-pass''" "''xx''"]
    by (simp add: validate_secret_def bcrypt_secret_def)
  have V1: "verify_password demo_bcrypt ''another-pass'' (demo_hash CHR ''a'') = Inr False"
    using verify_password_new_hash [OF demo_bcrypt_ok demo_salt_ok, of "''another-pass''" "''password1234''"]
    by (simp add: validate_secret_def bcrypt_secret_def)
  have R: "login_for_access_token demo_bcrypt demo_encoder demo_settings ?q ?d =
             Inr (Response 401 ''Incorrect email or password'')"
    using F V1 by (simp add: login_for_access_token_def)
  show ?thesis
    using F V2 R login_first_match_only [OF F, where H = demo_bcrypt and enc = demo_encoder and cfg = demo_settings]
    by simp
qed

end
