(* ===== verification/Schemas.thy ===== *)
theory Schemas
  imports Json
begin

text \<open>
  The pydantic schemas of the seller routes (\<open>src/schemas/sellers.py\<close>): the model
  hierarchy \<open>BaseSeller\<close>, \<open>IncomingSeller\<close>, \<open>ReturnedSeller\<close> as extensible records,
  the two field validators, and the validation of a request body against a model.
  Validation follows pydantic's rules for these field types: a \<open>str\<close> field accepts a
  JSON string only, an \<open>int\<close> field a JSON integer, a missing field is an error, and all
  fields are validated, their errors collected in field order. Members the model does
  not declare are ignored.
\<close>

section \<open>Models\<close>

text \<open>\<open>class BaseSeller\<close>, lines 9-12.\<close>

record base_seller =
  first_name :: string
  last_name :: string
  email :: string

text \<open>\<open>class IncomingSeller(BaseSeller)\<close>, lines 16-17 (its validators below).\<close>

record incoming_seller = base_seller +
  password :: string

text \<open>\<open>class ReturnedSeller(BaseSeller)\<close>, lines 35-36.\<close>

record returned_seller = base_seller +
  returned_id :: int

text \<open>
  \<open>ReturnedSellerWithBooks\<close>, lines 43-44: a \<open>ReturnedSeller\<close> with the list of its
  books, each already serialized as a \<open>ReturnedBook\<close>.
\<close>

record returned_seller_with_books = returned_seller +
  books :: "json list"

text \<open>What a failed validation reports: the field and the kind of error.\<close>

datatype field_error =
    Missing string
  | StringType string
  | IntType string
  | CustomError string string
  | ModelType

section \<open>Validators\<close>

text \<open>
  The pattern \<open>^\S+@\S+\.\S+$\<close> of \<open>validate_email\<close>, as a language: \<open>re.match\<close>
  anchors at the start, \<open>\S\<close> is a character that is not whitespace in the sense of
  \<open>str.isspace\<close>, and \<open>$\<close> matches at the end of the string or before a newline that
  ends it. This is the reference the checker below is proved equal to.
\<close>

definition email_pattern_lang :: "string \<Rightarrow> bool" where
  "email_pattern_lang s \<longleftrightarrow>
     (\<exists>u v w. u \<noteq> [] \<and> v \<noteq> [] \<and> w \<noteq> [] \<and> list_all (\<lambda>c. \<not> py_isspace c) (u @ v @ w) \<and>
        (s = u @ CHR ''@'' # v @ CHR ''.'' # w \<or> s = u @ CHR ''@'' # v @ CHR ''.'' # w @ [CHR 0x0A]))"

text \<open>
  The executable matcher: the string (without a final newline) has no whitespace, and
  some \<open>@\<close> after the first character is followed by a dot that is neither the next
  character nor the last one.
\<close>

definition dot_split :: "string \<Rightarrow> bool" where
  "dot_split r \<longleftrightarrow> CHR ''.'' \<in> set (butlast (drop 1 r))"

definition email_body_match :: "string \<Rightarrow> bool" where
  "email_body_match t \<longleftrightarrow>
     list_all (\<lambda>c. \<not> py_isspace c) t \<and>
     list_ex (\<lambda>i. t ! i = CHR ''@'' \<and> dot_split (drop (Suc i) t)) [1..<length t]"

definition email_match :: "string \<Rightarrow> bool" where
  "email_match s \<longleftrightarrow>
     email_body_match s \<or> (s \<noteq> [] \<and> last s = CHR 0x0A \<and> email_body_match (butlast s))"

text \<open>\<open>IncomingSeller.validate_email\<close>, lines 18-23.\<close>

definition validate_email :: "string \<Rightarrow> field_error list + string" where
  "validate_email mail =
     (if \<not> email_match mail then Inl [CustomError ''email'' ''Email is wrong!''] else Inr mail)"

text \<open>\<open>IncomingSeller.validate_pass\<close>, lines 25-30: \<open>len\<close> counts characters.\<close>

definition validate_pass :: "string \<Rightarrow> field_error list + string" where
  "validate_pass pw =
     (if length pw < 10 then Inl [CustomError ''password'' ''Password is too short!''] else Inr pw)"

text \<open>The response model's serialization of a \<open>ReturnedSellerWithBooks\<close>, in field order.\<close>

definition returned_seller_with_books_json :: "returned_seller_with_books \<Rightarrow> json" where
  "returned_seller_with_books_json r =
     JObj [(''first_name'', JStr (first_name r)), (''last_name'', JStr (last_name r)),
           (''email'', JStr (email r)), (''id'', JInt (returned_id r)), (''books'', JList (books r))]"

section \<open>Validating a request body\<close>

definition str_field :: "jobj \<Rightarrow> string \<Rightarrow> field_error list + string" where
  "str_field kvs f =
     (case obj_get kvs f of
        None \<Rightarrow> Inl [Missing f]
      | Some (JStr s) \<Rightarrow> Inr s
      | Some _ \<Rightarrow> Inl [StringType f])"

definition int_field :: "jobj \<Rightarrow> string \<Rightarrow> field_error list + int" where
  "int_field kvs f =
     (case obj_get kvs f of
        None \<Rightarrow> Inl [Missing f]
      | Some (JInt i) \<Rightarrow> Inr i
      | Some _ \<Rightarrow> Inl [IntType f])"

text \<open>An \<open>after\<close> validator runs on a field that passed its type check.\<close>

definition then_validate :: "'e list + 'a \<Rightarrow> ('a \<Rightarrow> 'e list + 'a) \<Rightarrow> 'e list + 'a" where
  "then_validate r v = (case r of Inl e \<Rightarrow> Inl e | Inr x \<Rightarrow> v x)"

fun errors_of :: "'e list + 'a \<Rightarrow> 'e list" where
  "errors_of (Inl e) = e"
| "errors_of (Inr _) = []"

text \<open>\<open>IncomingSeller.model_validate\<close> on the JSON body.\<close>

definition validate_incoming_seller :: "json \<Rightarrow> field_error list + incoming_seller" where
  "validate_incoming_seller body =
     (case body of
        JObj kvs \<Rightarrow>
          (let fn = str_field kvs ''first_name'';
               ln = str_field kvs ''last_name'';
               em = then_validate (str_field kvs ''email'') validate_email;
               pw = then_validate (str_field kvs ''password'') validate_pass in
           case (fn, ln, em, pw) of
             (Inr a, Inr b, Inr c, Inr p) \<Rightarrow>
               Inr \<lparr>first_name = a, last_name = b, email = c, password = p\<rparr>
           | _ \<Rightarrow> Inl (errors_of fn @ errors_of ln @ errors_of em @ errors_of pw))
      | _ \<Rightarrow> Inl [ModelType])"

text \<open>\<open>ReturnedSeller.model_validate\<close>: no validators.\<close>

definition validate_returned_seller :: "json \<Rightarrow> field_error list + returned_seller" where
  "validate_returned_seller body =
     (case body of
        JObj kvs \<Rightarrow>
          (let fn = str_field kvs ''first_name'';
               ln = str_field kvs ''last_name'';
               em = str_field kvs ''email'';
               i = int_field kvs ''id'' in
           case (fn, ln, em, i) of
             (Inr a, Inr b, Inr c, Inr n) \<Rightarrow>
               Inr \<lparr>first_name = a, last_name = b, email = c, returned_id = n\<rparr>
           | _ \<Rightarrow> Inl (errors_of fn @ errors_of ln @ errors_of em @ errors_of i))
      | _ \<Rightarrow> Inl [ModelType])"

text \<open>
  The JSON a \<open>ReturnedSeller\<close> serializes to, fields in model order (the inherited ones
  first).
\<close>

definition returned_seller_json :: "returned_seller \<Rightarrow> json" where
  "returned_seller_json r =
     JObj [(''first_name'', JStr (first_name r)), (''last_name'', JStr (last_name r)),
           (''email'', JStr (email r)), (''id'', JInt (returned_id r))]"

section \<open>Lemmas\<close>

lemma not_space_at_dot [simp]: "\<not> py_isspace (CHR ''@'')" "\<not> py_isspace (CHR ''.'')"
  by (simp_all add: py_isspace_def)

lemma dot_split_iff:
  "dot_split r \<longleftrightarrow> (\<exists>v w. v \<noteq> [] \<and> w \<noteq> [] \<and> r = v @ CHR ''.'' # w)"
proof
  assume "dot_split r"
  then have d: "CHR ''.'' \<in> set (butlast (tl r))" by (simp add: dot_split_def drop_Suc)
  then obtain a b where ab: "butlast (tl r) = a @ CHR ''.'' # b" by (meson split_list)
  have "tl r \<noteq> []" using d by auto
  then have tl: "tl r = a @ CHR ''.'' # b @ [last (tl r)]"
    using ab append_butlast_last_id by fastforce
  have "r \<noteq> []" using d by auto
  then have "r = (hd r # a) @ CHR ''.'' # (b @ [last (tl r)])" using tl by (cases r) auto
  then show "\<exists>v w. v \<noteq> [] \<and> w \<noteq> [] \<and> r = v @ CHR ''.'' # w" by blast
next
  assume "\<exists>v w. v \<noteq> [] \<and> w \<noteq> [] \<and> r = v @ CHR ''.'' # w"
  then obtain v w where "v \<noteq> []" "w \<noteq> []" "r = v @ CHR ''.'' # w" by blast
  then show "dot_split r"
    by (cases v; cases w rule: rev_cases) (auto simp: dot_split_def butlast_append)
qed

lemma email_body_match_iff:
  "email_body_match t \<longleftrightarrow>
     (\<exists>u v w. u \<noteq> [] \<and> v \<noteq> [] \<and> w \<noteq> [] \<and> list_all (\<lambda>c. \<not> py_isspace c) (u @ v @ w) \<and>
        t = u @ CHR ''@'' # v @ CHR ''.'' # w)"
proof
  assume m: "email_body_match t"
  then obtain i where i: "1 \<le> i" "i < length t" and at: "t ! i = CHR ''@''"
    and ds: "dot_split (drop (Suc i) t)"
    by (auto simp: email_body_match_def list_ex_iff)
  from ds obtain v w where vw: "v \<noteq> []" "w \<noteq> []" "drop (Suc i) t = v @ CHR ''.'' # w"
    by (auto simp: dot_split_iff)
  have t: "t = take i t @ CHR ''@'' # v @ CHR ''.'' # w"
    using id_take_nth_drop [OF i(2)] at vw(3) by simp
  have "list_all (\<lambda>c. \<not> py_isspace c) t" using m by (simp add: email_body_match_def)
  then have "list_all (\<lambda>c. \<not> py_isspace c) (take i t @ v @ w)"
    by (subst (asm) t) simp
  moreover have "take i t \<noteq> []" using i by (cases t) auto
  ultimately show "\<exists>u v w. u \<noteq> [] \<and> v \<noteq> [] \<and> w \<noteq> [] \<and> list_all (\<lambda>c. \<not> py_isspace c) (u @ v @ w) \<and>
        t = u @ CHR ''@'' # v @ CHR ''.'' # w"
    using vw t by blast
next
  assume "\<exists>u v w. u \<noteq> [] \<and> v \<noteq> [] \<and> w \<noteq> [] \<and> list_all (\<lambda>c. \<not> py_isspace c) (u @ v @ w) \<and>
        t = u @ CHR ''@'' # v @ CHR ''.'' # w"
  then obtain u v w where uvw: "u \<noteq> []" "v \<noteq> []" "w \<noteq> []"
    and ws: "list_all (\<lambda>c. \<not> py_isspace c) (u @ v @ w)" and t: "t = u @ CHR ''@'' # v @ CHR ''.'' # w"
    by blast
  have "length u \<in> set [1..<length t]" using uvw t by (simp add: Suc_le_eq)
  moreover have "t ! length u = CHR ''@''" using t by simp
  moreover have "dot_split (drop (Suc (length u)) t)"
    using t uvw by (auto simp: dot_split_iff)
  ultimately have "list_ex (\<lambda>i. t ! i = CHR ''@'' \<and> dot_split (drop (Suc i) t)) [1..<length t]"
    by (auto simp: list_ex_iff)
  then show "email_body_match t" using ws t by (simp add: email_body_match_def)
qed

section \<open>The validators against the pattern\<close>

text \<open>
  The checker accepts exactly the strings that \<open>re.match(r"^\S+@\S+\.\S+$", mail)\<close>
  matches: some non-whitespace, an \<open>@\<close>, some non-whitespace, a dot and some
  non-whitespace, optionally followed by one final newline.
\<close>

lemma email_match_lang: "email_match s \<longleftrightarrow> email_pattern_lang s"
proof
  assume "email_match s"
  then show "email_pattern_lang s"
  proof (unfold email_match_def, elim disjE conjE)
    assume "email_body_match s"
    then show ?thesis by (auto simp: email_body_match_iff email_pattern_lang_def)
  next
    assume ne: "s \<noteq> []" and lf: "last s = CHR 0x0A" and b: "email_body_match (butlast s)"
    have "s = butlast s @ [CHR 0x0A]" using ne lf by (metis append_butlast_last_id)
    with b show ?thesis unfolding email_body_match_iff email_pattern_lang_def
      by (metis append.assoc append_Cons)
  qed
next
  assume "email_pattern_lang s"
  then obtain u v w where uvw: "u \<noteq> []" "v \<noteq> []" "w \<noteq> []" "list_all (\<lambda>c. \<not> py_isspace c) (u @ v @ w)"
    and s: "s = u @ CHR ''@'' # v @ CHR ''.'' # w \<or> s = u @ CHR ''@'' # v @ CHR ''.'' # w @ [CHR 0x0A]"
    unfolding email_pattern_lang_def by blast
  have body: "email_body_match (u @ CHR ''@'' # v @ CHR ''.'' # w)"
    using uvw by (auto simp: email_body_match_iff)
  from s show "email_match s"
  proof
    assume "s = u @ CHR ''@'' # v @ CHR ''.'' # w"
    with body show ?thesis by (simp add: email_match_def)
  next
    assume "s = u @ CHR ''@'' # v @ CHR ''.'' # w @ [CHR 0x0A]"
    with body show ?thesis by (simp add: email_match_def butlast_append)
  qed
qed

lemma str_field_Inr [simp]: "str_field kvs f = Inr x \<longleftrightarrow> obj_get kvs f = Some (JStr x)"
  by (auto simp: str_field_def split: option.splits json.splits)

text \<open>
  What \<open>IncomingSeller\<close> admits: a JSON object whose four fields are strings, with an
  email in the pattern's language and a password of at least ten characters.
\<close>

lemma validate_incoming_seller_Inr:
  "validate_incoming_seller b = Inr s \<longleftrightarrow>
     (\<exists>kvs. b = JObj kvs \<and>
        obj_get kvs ''first_name'' = Some (JStr (first_name s)) \<and>
        obj_get kvs ''last_name'' = Some (JStr (last_name s)) \<and>
        obj_get kvs ''email'' = Some (JStr (email s)) \<and>
        obj_get kvs ''password'' = Some (JStr (password s)) \<and>
        email_pattern_lang (email s) \<and> 10 \<le> length (password s))"
proof -
  have v: "then_validate r v = Inr x \<longleftrightarrow> (\<exists>y. r = Inr y \<and> v y = Inr x)" for r :: "'e list + 'a" and v x
    by (cases r) (auto simp: then_validate_def)
  have e: "validate_email m = Inr x \<longleftrightarrow> x = m \<and> email_pattern_lang m" for m x
    by (auto simp: validate_email_def email_match_lang)
  have p: "validate_pass m = Inr x \<longleftrightarrow> x = m \<and> 10 \<le> length m" for m x
    by (auto simp: validate_pass_def)
  show ?thesis
    by (cases b; auto simp: validate_incoming_seller_def Let_def v e p split: sum.splits prod.splits;
        simp add: str_field_def then_validate_def validate_email_def validate_pass_def email_match_lang)
qed

lemma email_match_fresh: "email_match (replicate (Suc k) CHR ''a'' @ ''@b.co'')"
proof -
  let ?t = "replicate (Suc k) CHR ''a'' @ ''@b.co''"
  have at: "?t ! Suc k = CHR ''@''" by (simp add: nth_append)
  have dr: "drop (Suc (Suc k)) ?t = ''b.co''" by simp
  have "\<exists>i \<in> set [1..<length ?t]. ?t ! i = CHR ''@'' \<and> dot_split (drop (Suc i) ?t)"
    using at dr by (intro bexI [of _ "Suc k"]) (simp_all add: dot_split_def)
  moreover have "list_all (\<lambda>c. \<not> py_isspace c) ?t" by (simp add: py_isspace_def list_all_iff)
  ultimately show ?thesis by (simp add: email_match_def email_body_match_def list_ex_iff)
qed

end
