(* ===== verification/Sellers.thy ===== *)
theory Sellers
  imports Gate Passwords Store Schemas
begin

text \<open>
  The seller routes of \<open>src/routers/v1/sellers.py\<close> over the tables of \<open>Store\<close>. Each
  route is a state transformer \<open>db \<Rightarrow> json outcome \<times> db\<close>: the response (an escaping
  exception, an explicit \<open>Response\<close>, or the returned value serialized through the
  route's \<open>response_model\<close>) and the state after the request's transaction. FastAPI
  validates the path parameter and the body before the handler runs; a body that is not
  JSON, or does not validate against the model, is answered with 422 and the handler
  does not run (the detail body of that response is not modelled). A handler that
  raises leaves the tables unchanged: in every route the exception comes before the
  first write.
\<close>

section \<open>Serialization\<close>

text \<open>A stored row as \<open>ReturnedSeller\<close> serializes it.\<close>

definition seller_row_json :: "seller \<Rightarrow> json" where
  "seller_row_json r =
     returned_seller_json \<lparr>first_name = seller_first_name r, last_name = seller_last_name r,
                           email = seller_email r, returned_id = int (seller_id r)\<rparr>"

definition unprocessable :: "json outcome" where
  "unprocessable = Inr (Response 422 ''Unprocessable Entity'')"

section \<open>The routes\<close>

text \<open>
  \<open>create_seller\<close>, lines 18-32. \<open>salt\<close> is the salt passlib draws for the new hash.
  The row stores the email as \<open>EmailType\<close> binds it (lowercased); the returned object is
  the new ORM instance after the flush, whose \<open>email\<close> attribute is still the value as
  sent, and whose \<open>id\<close> the flush assigned.
\<close>

text \<open>
  \<open>Seller(first_name=..., last_name=..., email=..., password=get_password_hash(...))\<close>,
  lines 23-28, as the flush writes it with the id \<open>i\<close>.
\<close>

definition new_seller_row :: "nat \<Rightarrow> incoming_seller \<Rightarrow> string \<Rightarrow> seller" where
  "new_seller_row i seller h =
     \<lparr>seller_id = i, seller_first_name = first_name seller, seller_last_name = last_name seller,
      seller_email = email_bind (email seller), seller_password = h\<rparr>"

definition create_seller :: "bcrypt_fn \<Rightarrow> string \<Rightarrow> json option \<Rightarrow> db \<Rightarrow> json outcome \<times> db" where
  "create_seller H salt body d =
     (case body of
        None \<Rightarrow> (unprocessable, d)
      | Some b \<Rightarrow>
          (case validate_incoming_seller b of
             Inl errs \<Rightarrow> (unprocessable, d)
           | Inr seller \<Rightarrow>
               (case get_password_hash H salt (password seller) of
                  Inl e \<Rightarrow> (Inl e, d)
                | Inr h \<Rightarrow>
                    (let i = next_seller_id d;
                         row = new_seller_row i seller h in
                     (Inr (Return (returned_seller_json
                        \<lparr>first_name = first_name seller, last_name = last_name seller,
                         email = email seller, returned_id = int i\<rparr>)),
                      d\<lparr>sellers_table := sellers_table d @ [row], next_seller_id := Suc i\<rparr>)))))"

text \<open>\<open>get_all_sellers\<close>, lines 35-40.\<close>

definition get_all_sellers :: "db \<Rightarrow> json outcome \<times> db" where
  "get_all_sellers d =
     (Inr (Return (JObj [(''sellers'', JList (map seller_row_json (sellers_table d)))])), d)"

text \<open>
  The path parameter \<open>seller_id\<close> of the routes is \<open>sid\<close> below (the name is taken
  by the column's selector).
\<close>

text \<open>
  \<open>get_seller\<close>, lines 43-58, before the decorator: the seller and the books whose
  \<open>seller_id\<close> is the path parameter, serialized as \<open>ReturnedSellerWithBooks\<close>. A book
  is serialized by \<open>ReturnedBook\<close> (\<open>src/schemas/books.py\<close>, not among the sources),
  the parameter \<open>bj\<close>.
\<close>

definition get_seller :: "(book \<Rightarrow> json) \<Rightarrow> int \<Rightarrow> db \<Rightarrow> json outcome \<times> db" where
  "get_seller bj sid d =
     (case get_seller_row d sid of
        None \<Rightarrow> (Inr (Response 404 ''''), d)
      | Some r \<Rightarrow>
          (let bs = filter (\<lambda>b. int (book_seller_id b) = sid) (books_table d) in
           (Inr (Return (returned_seller_with_books_json
              \<lparr>first_name = seller_first_name r, last_name = seller_last_name r, email = seller_email r,
               returned_id = int (seller_id r), books = map bj bs\<rparr>)), d)))"

text \<open>The route as registered: \<open>get_seller\<close> wrapped by \<open>protect_with_token\<close> (line 42).\<close>

definition get_seller_route ::
  "jwt_decoder \<Rightarrow> settings \<Rightarrow> (book \<Rightarrow> json) \<Rightarrow> json option \<Rightarrow> int \<Rightarrow> db \<Rightarrow> json outcome \<times> db" where
  "get_seller_route dec cfg bj body sid d = protect_with_token dec cfg (get_seller bj) body sid d"

text \<open>
  \<open>update_seller\<close>, lines 61-72: the body is a \<open>ReturnedSeller\<close>, whose \<open>id\<close> is required
  but not used. The names and the email are overwritten; the id and the password hash
  are kept.
\<close>

text \<open>The attribute assignments of lines 64-66, as the flush writes them.\<close>

definition updated_row :: "seller \<Rightarrow> returned_seller \<Rightarrow> seller" where
  "updated_row r new_data =
     r\<lparr>seller_first_name := first_name new_data, seller_last_name := last_name new_data,
       seller_email := email_bind (email new_data)\<rparr>"

definition update_seller :: "int \<Rightarrow> json option \<Rightarrow> db \<Rightarrow> json outcome \<times> db" where
  "update_seller sid body d =
     (case body of
        None \<Rightarrow> (unprocessable, d)
      | Some b \<Rightarrow>
          (case validate_returned_seller b of
             Inl errs \<Rightarrow> (unprocessable, d)
           | Inr new_data \<Rightarrow>
               (case get_seller_row d sid of
                  None \<Rightarrow> (Inr (Response 404 ''''), d)
                | Some r \<Rightarrow>
                    (let r' = updated_row r new_data in
                     (Inr (Return (returned_seller_json
                        \<lparr>first_name = first_name new_data, last_name = last_name new_data,
                         email = email new_data, returned_id = int (seller_id r)\<rparr>)),
                      d\<lparr>sellers_table :=
                          map (\<lambda>x. if seller_id x = seller_id r then r' else x) (sellers_table d)\<rparr>)))))"

text \<open>
  \<open>delete_seller\<close>, lines 75-81: the seller's books go with it (\<open>cascade="all,
  delete-orphan"\<close> on \<open>Seller.books\<close>); the answer is 204 whether or not the seller
  existed.
\<close>

definition delete_seller :: "int \<Rightarrow> db \<Rightarrow> json outcome \<times> db" where
  "delete_seller sid d =
     (case get_seller_row d sid of
        None \<Rightarrow> (Inr (Response 204 ''''), d)
      | Some r \<Rightarrow>
          (Inr (Response 204 ''''),
           d\<lparr>sellers_table := filter (\<lambda>x. seller_id x \<noteq> seller_id r) (sellers_table d),
             books_table := filter (\<lambda>b. book_seller_id b \<noteq> seller_id r) (books_table d)\<rparr>))"

section \<open>The router\<close>

text \<open>A request to \<open>sellers_router\<close>: the route, its path parameter and its body.\<close>

datatype seller_request =
    CreateSeller string "json option"
  | ListSellers
  | GetSeller int "json option"
  | UpdateSeller int "json option"
  | DeleteSeller int

fun seller_api ::
  "bcrypt_fn \<Rightarrow> jwt_decoder \<Rightarrow> settings \<Rightarrow> (book \<Rightarrow> json) \<Rightarrow> seller_request \<Rightarrow> db \<Rightarrow> json outcome \<times> db"
where
  "seller_api H dec cfg bj (CreateSeller salt body) d = create_seller H salt body d"
| "seller_api H dec cfg bj ListSellers d = get_all_sellers d"
| "seller_api H dec cfg bj (GetSeller i body) d = get_seller_route dec cfg bj body i d"
| "seller_api H dec cfg bj (UpdateSeller i body) d = update_seller i body d"
| "seller_api H dec cfg bj (DeleteSeller i) d = delete_seller i d"

text \<open>The status a route answers with when its handler returns a value.\<close>

fun route_status :: "seller_request \<Rightarrow> nat" where
  "route_status (CreateSeller _ _) = 201"
| "route_status _ = 200"

section \<open>The states the API can reach\<close>

text \<open>
  Every stored password is a hash of the shape \<open>get_password_hash\<close> returns. This
  holds for the rows the routes write; the tests also insert rows directly, with
  plain-text passwords, which is the case of claim C8.
\<close>

definition passwords_issued :: "db \<Rightarrow> bool" where
  "passwords_issued d \<longleftrightarrow> list_all (\<lambda>r. issued_hash (seller_password r)) (sellers_table d)"

text \<open>
  The environment's side of a request: the salt passlib draws for a new hash is a bcrypt
  salt (\<open>gensalt\<close> draws 22 characters of the bcrypt alphabet).
\<close>

fun request_salt_ok :: "seller_request \<Rightarrow> bool" where
  "request_salt_ok (CreateSeller salt _) = bcrypt_salt_ok salt"
| "request_salt_ok _ = True"

text \<open>The states reachable from the empty tables by any sequence of requests.\<close>

inductive api_reachable :: "bcrypt_fn \<Rightarrow> jwt_decoder \<Rightarrow> settings \<Rightarrow> (book \<Rightarrow> json) \<Rightarrow> db \<Rightarrow> bool"
  for H dec cfg bj
where
  start: "api_reachable H dec cfg bj empty_db"
| request: "api_reachable H dec cfg bj d \<Longrightarrow> request_salt_ok req \<Longrightarrow>
            api_reachable H dec cfg bj (snd (seller_api H dec cfg bj req d))"

section \<open>Fixtures of the repository's tests\<close>

text \<open>
  \<open>test_get_sellers\<close> (src/tests/test_sellers.py, lines 32-39) adds two sellers
  directly to an empty database, with the same email and plain-text passwords.
\<close>

definition test_get_sellers_db :: db where
  "test_get_sellers_db =
     \<lparr>sellers_table =
        [\<lparr>seller_id = 1, seller_first_name = ''1'', seller_last_name = ''2'',
          seller_email = email_bind ''123@email.com'', seller_password = ''1231231231''\<rparr>,
         \<lparr>seller_id = 2, seller_first_name = ''12'', seller_last_name = ''22'',
          seller_email = email_bind ''123@email.com'', seller_password = ''123123123123''\<rparr>],
      books_table = [], next_seller_id = 3, next_book_id = 1\<rparr>"

text \<open>
  \<open>test_get_single_seller\<close> (lines 54-64): one seller added directly, and the book that
  the test then posts for it through the book route, as that route stores it.
\<close>

definition test_single_seller_db :: db where
  "test_single_seller_db =
     \<lparr>sellers_table =
        [\<lparr>seller_id = 1, seller_first_name = ''123'', seller_last_name = ''123'',
          seller_email = email_bind ''123@email.com'', seller_password = ''123123123123123''\<rparr>],
      books_table =
        [\<lparr>book_id = 1, book_title = ''Wrong Code'', book_author = ''Robert Martin'', book_year = 2007,
          book_count_pages = 104, book_seller_id = 1\<rparr>],
      next_seller_id = 2, next_book_id = 2\<rparr>"

section \<open>Lemmas\<close>

subsection \<open>The table invariant under the three kinds of write\<close>

lemma db_inv_append_seller:
  assumes "db_inv d" and "seller_id r = next_seller_id d" and "email_bind (seller_email r) = seller_email r"
  shows "db_inv (d\<lparr>sellers_table := sellers_table d @ [r], next_seller_id := Suc (next_seller_id d)\<rparr>)"
proof -
  have "seller_id r \<notin> set (map seller_id (sellers_table d))"
    using assms(1,2) by (auto simp: db_inv_def list_all_iff)
  with assms show ?thesis
    by (auto simp: db_inv_def list_all_iff less_SucI)
qed

lemma map_replace_ids:
  "seller_id r' = seller_id r \<Longrightarrow>
   map seller_id (map (\<lambda>x. if seller_id x = seller_id r then r' else x) xs) = map seller_id xs"
  by (induction xs) auto

lemma db_inv_replace_seller:
  assumes "db_inv d" and "seller_id r' = seller_id r" and "email_bind (seller_email r') = seller_email r'"
  shows "db_inv (d\<lparr>sellers_table := map (\<lambda>x. if seller_id x = seller_id r then r' else x) (sellers_table d)\<rparr>)"
proof -
  let ?xs = "map (\<lambda>x. if seller_id x = seller_id r then r' else x) (sellers_table d)"
  have ids: "map seller_id ?xs = map seller_id (sellers_table d)"
    using assms(2) by (rule map_replace_ids)
  have rows: "list_all (\<lambda>x. 0 < seller_id x \<and> seller_id x < next_seller_id d \<and>
                    email_bind (seller_email x) = seller_email x) ?xs"
    using assms by (auto simp: db_inv_def list_all_iff)
  show ?thesis
    using assms(1) rows ids by (simp add: db_inv_def del: map_map)
qed

lemma db_inv_delete_seller:
  assumes "db_inv d"
  shows "db_inv (d\<lparr>sellers_table := filter (\<lambda>x. seller_id x \<noteq> k) (sellers_table d),
                   books_table := filter (\<lambda>b. book_seller_id b \<noteq> k) (books_table d)\<rparr>)"
  using assms by (auto simp: db_inv_def list_all_iff distinct_map_filter)

subsection \<open>What each route writes\<close>

lemma new_seller_row_simps [simp]:
  "seller_id (new_seller_row i s h) = i"
  "email_bind (seller_email (new_seller_row i s h)) = seller_email (new_seller_row i s h)"
  by (simp_all add: new_seller_row_def)

lemma updated_row_simps [simp]:
  "seller_id (updated_row r nd) = seller_id r"
  "seller_password (updated_row r nd) = seller_password r"
  "email_bind (seller_email (updated_row r nd)) = seller_email (updated_row r nd)"
  by (simp_all add: updated_row_def)

lemma create_seller_state:
  "snd (create_seller H salt body d) = d \<or>
   (\<exists>b s h. body = Some b \<and> validate_incoming_seller b = Inr s \<and>
      get_password_hash H salt (password s) = Inr h \<and>
      snd (create_seller H salt body d) =
        d\<lparr>sellers_table := sellers_table d @ [new_seller_row (next_seller_id d) s h],
          next_seller_id := Suc (next_seller_id d)\<rparr>)"
  by (auto simp: create_seller_def Let_def split: option.split sum.split)

lemma update_seller_state:
  "snd (update_seller sid body d) = d \<or>
   (\<exists>b nd r. body = Some b \<and> validate_returned_seller b = Inr nd \<and> get_seller_row d sid = Some r \<and>
      snd (update_seller sid body d) =
        d\<lparr>sellers_table := map (\<lambda>x. if seller_id x = seller_id r then updated_row r nd else x)
                              (sellers_table d)\<rparr>)"
  by (auto simp: update_seller_def Let_def split: option.split sum.split)

lemma delete_seller_state:
  "snd (delete_seller sid d) = d \<or>
   (\<exists>r. get_seller_row d sid = Some r \<and>
      snd (delete_seller sid d) =
        d\<lparr>sellers_table := filter (\<lambda>x. seller_id x \<noteq> seller_id r) (sellers_table d),
          books_table := filter (\<lambda>b. book_seller_id b \<noteq> seller_id r) (books_table d)\<rparr>)"
  by (auto simp: delete_seller_def split: option.split)

lemma get_seller_route_state: "snd (get_seller_route dec cfg bj body sid d) = d"
  using protect_with_token_state [of dec cfg "get_seller bj" body sid d]
  by (auto simp: get_seller_route_def get_seller_def returned_seller_with_books_json_def Let_def split: option.splits)

lemma get_all_sellers_state [simp]: "snd (get_all_sellers d) = d"
  by (simp add: get_all_sellers_def)

lemma db_inv_seller_api:
  assumes "db_inv d"
  shows "db_inv (snd (seller_api H dec cfg bj req d))"
proof (cases req)
  case (CreateSeller salt body)
  from create_seller_state [of H salt body d] show ?thesis
  proof (elim disjE exE conjE)
    fix b s h
    assume "snd (create_seller H salt body d) =
        d\<lparr>sellers_table := sellers_table d @ [new_seller_row (next_seller_id d) s h],
          next_seller_id := Suc (next_seller_id d)\<rparr>"
    then show ?thesis
      using db_inv_append_seller [OF assms new_seller_row_simps] by (simp add: CreateSeller)
  qed (simp add: CreateSeller assms)
next
  case ListSellers
  with assms show ?thesis by simp
next
  case (GetSeller sid body)
  with assms show ?thesis by (simp add: get_seller_route_state)
next
  case (UpdateSeller sid body)
  from update_seller_state [of sid body d] show ?thesis
  proof (elim disjE exE conjE)
    fix b nd r
    assume "snd (update_seller sid body d) =
        d\<lparr>sellers_table := map (\<lambda>x. if seller_id x = seller_id r then updated_row r nd else x)
                              (sellers_table d)\<rparr>"
    then show ?thesis
      using db_inv_replace_seller [OF assms updated_row_simps(1) updated_row_simps(3)]
      by (simp add: UpdateSeller)
  qed (simp add: UpdateSeller assms)
next
  case (DeleteSeller sid)
  from delete_seller_state [of sid d] show ?thesis
    using db_inv_delete_seller [OF assms] by (auto simp: DeleteSeller assms)
qed

lemma passwords_issued_seller_api:
  assumes "passwords_issued d" and "bcrypt_fn_ok H" and "request_salt_ok req"
  shows "passwords_issued (snd (seller_api H dec cfg bj req d))"
proof (cases req)
  case (CreateSeller salt body)
  from create_seller_state [of H salt body d] show ?thesis
  proof (elim disjE exE conjE)
    fix b s h
    assume h: "get_password_hash H salt (password s) = Inr h"
      and st: "snd (create_seller H salt body d) =
        d\<lparr>sellers_table := sellers_table d @ [new_seller_row (next_seller_id d) s h],
          next_seller_id := Suc (next_seller_id d)\<rparr>"
    have "issued_hash h"
      using issued_hash_of [OF assms(2) _ h] assms(3) by (simp add: CreateSeller)
    then show ?thesis
      using assms(1) st by (simp add: CreateSeller passwords_issued_def new_seller_row_def)
  qed (simp add: CreateSeller assms(1))
next
  case (UpdateSeller sid body)
  from update_seller_state [of sid body d] show ?thesis
  proof (elim disjE exE conjE)
    fix b nd r
    assume r: "get_seller_row d sid = Some r"
      and st: "snd (update_seller sid body d) =
        d\<lparr>sellers_table := map (\<lambda>x. if seller_id x = seller_id r then updated_row r nd else x)
                              (sellers_table d)\<rparr>"
    have "r \<in> set (sellers_table d)" using get_seller_row_Some [OF r] by blast
    then show ?thesis
      using assms(1) st by (auto simp: UpdateSeller passwords_issued_def list_all_iff)
  qed (simp add: UpdateSeller assms(1))
next
  case (DeleteSeller sid)
  from delete_seller_state [of sid d] assms(1) show ?thesis
    by (auto simp: DeleteSeller passwords_issued_def list_all_iff)
qed (simp_all add: get_seller_route_state assms(1))

lemma api_reachable_invs:
  assumes "api_reachable H dec cfg bj d" and "bcrypt_fn_ok H"
  shows "db_inv d \<and> passwords_issued d"
  using assms(1)
proof (induction rule: api_reachable.induct)
  case start
  have "passwords_issued empty_db" by (simp add: passwords_issued_def empty_db_def)
  then show ?case by simp
next
  case (request d req)
  then show ?case
    using db_inv_seller_api passwords_issued_seller_api [OF _ assms(2)] by blast
qed

subsection \<open>Lookups after a write\<close>

lemma find_map_same_key:
  "(\<And>x. P (f x) = P x) \<Longrightarrow> find P (map f xs) = map_option f (find P xs)"
  by (induction xs) auto

lemma get_seller_row_replace:
  assumes "get_seller_row d sid = Some r" and "seller_id r' = seller_id r"
  shows "get_seller_row (d\<lparr>sellers_table := map (\<lambda>x. if seller_id x = seller_id r then r' else x)
                                                (sellers_table d)\<rparr>) sid = Some r'"
proof -
  have "find (\<lambda>x. int (seller_id x) = sid) (map (\<lambda>x. if seller_id x = seller_id r then r' else x) (sellers_table d))
        = map_option (\<lambda>x. if seller_id x = seller_id r then r' else x) (get_seller_row d sid)"
    unfolding get_seller_row_def using assms(2) by (intro find_map_same_key) auto
  then show ?thesis using assms by (simp add: get_seller_row_def)
qed

lemma get_seller_row_None:
  "get_seller_row d sid = None \<longleftrightarrow> (\<forall>x \<in> set (sellers_table d). int (seller_id x) \<noteq> sid)"
  by (auto simp: get_seller_row_def find_None_iff)

lemma validate_returned_seller_object:
  "validate_returned_seller (JObj [(''first_name'', JStr f), (''last_name'', JStr l), (''email'', JStr e), (''id'', JInt n)])
     = Inr \<lparr>first_name = f, last_name = l, email = e, returned_id = n\<rparr>"
  by (simp add: validate_returned_seller_def str_field_def int_field_def)

lemma create_seller_Return:
  assumes "create_seller H salt body d = (Inr (Return j), d')"
  shows "\<exists>b s h. body = Some b \<and> validate_incoming_seller b = Inr s \<and>
           get_password_hash H salt (password s) = Inr h \<and>
           d' = d\<lparr>sellers_table := sellers_table d @ [new_seller_row (next_seller_id d) s h],
                 next_seller_id := Suc (next_seller_id d)\<rparr>"
  using assms by (auto simp: create_seller_def Let_def unprocessable_def split: option.splits sum.splits)

lemma create_seller_valid:
  assumes "validate_incoming_seller b = Inr s" and "get_password_hash H salt (password s) = Inr h"
  shows "create_seller H salt (Some b) d =
           (Inr (Return (returned_seller_json \<lparr>first_name = first_name s, last_name = last_name s,
                                               email = email s, returned_id = int (next_seller_id d)\<rparr>)),
            d\<lparr>sellers_table := sellers_table d @ [new_seller_row (next_seller_id d) s h],
              next_seller_id := Suc (next_seller_id d)\<rparr>)"
  using assms by (simp add: create_seller_def Let_def)

lemma create_seller_stores:
  "sellers_table (snd (create_seller H salt body d)) \<noteq> sellers_table d \<longleftrightarrow>
     (\<exists>b s h. body = Some b \<and> validate_incoming_seller b = Inr s \<and> get_password_hash H salt (password s) = Inr h)"
  by (auto simp: create_seller_def Let_def split: option.splits sum.splits)

section \<open>Properties of the seller routes\<close>

text \<open>
  Claim C14. \<open>POST /seller\<close> stores a seller exactly when the body is a JSON object
  whose four fields are strings, the email matches \<open>^\S+@\S+\.\S+$\<close>, the password
  has at least ten characters, and passlib accepts the password for hashing (at most
  4096 bytes, no NUL byte). Every other request leaves the sellers table as it was.
\<close>

theorem create_seller_stores_iff_valid:
  "sellers_table (snd (create_seller H salt body d)) \<noteq> sellers_table d \<longleftrightarrow>
     (\<exists>kvs fn ln e pw. body = Some (JObj kvs) \<and>
        obj_get kvs ''first_name'' = Some (JStr fn) \<and> obj_get kvs ''last_name'' = Some (JStr ln) \<and>
        obj_get kvs ''email'' = Some (JStr e) \<and> obj_get kvs ''password'' = Some (JStr pw) \<and>
        email_pattern_lang e \<and> 10 \<le> length pw \<and>
        length (utf8_encode pw) \<le> 4096 \<and> CHR 0x00 \<notin> set (utf8_encode pw))"
  (is "?stored \<longleftrightarrow> (\<exists>kvs fn ln e pw. ?ok kvs fn ln e pw)")
proof
  assume ?stored
  then obtain b s h where b: "body = Some b" and v: "validate_incoming_seller b = Inr s"
    and h: "get_password_hash H salt (password s) = Inr h"
    by (auto simp: create_seller_stores)
  from v obtain kvs where "?ok kvs (first_name s) (last_name s) (email s) (password s)"
    using b h by (auto simp: validate_incoming_seller_Inr get_password_hash_Inr_iff)
  then show "\<exists>kvs fn ln e pw. ?ok kvs fn ln e pw" by blast
next
  assume "\<exists>kvs fn ln e pw. ?ok kvs fn ln e pw"
  then obtain kvs fn ln e pw where ok: "?ok kvs fn ln e pw" by blast
  define s where "s = \<lparr>first_name = fn, last_name = ln, email = e, password = pw\<rparr>"
  have "validate_incoming_seller (JObj kvs) = Inr s"
    using ok by (simp add: validate_incoming_seller_Inr s_def)
  moreover have "get_password_hash H salt (password s) = Inr (''$2b$12$'' @ salt @ H ''12'' salt (take 72 (utf8_encode pw)))"
    using ok by (simp add: get_password_hash_Inr_iff s_def)
  ultimately show ?stored using ok by (auto simp: create_seller_stores)
qed

theorem create_seller_stores_iff_valid_witness:
  "sellers_table (snd (create_seller (\<lambda>r s b. replicate 31 CHR ''.'') (replicate 22 CHR ''s'')
      (Some (JObj [(''first_name'', JStr ''1''), (''last_name'', JStr ''1''), (''email'', JStr ''123@mail.com''),
                   (''password'', JStr ''123123123123'')])) empty_db)) \<noteq> sellers_table empty_db \<and>
   sellers_table (snd (create_seller (\<lambda>r s b. replicate 31 CHR ''.'') (replicate 22 CHR ''s'')
      (Some (JObj [(''first_name'', JStr ''1''), (''last_name'', JStr ''1''), (''email'', JStr ''123mail.com''),
                   (''password'', JStr ''123123123123'')])) empty_db)) = sellers_table empty_db"
proof -
  have P: "email_pattern_lang ''123@mail.com''"
    unfolding email_pattern_lang_def
    by (rule exI [of _ "''123''"], rule exI [of _ "''mail''"], rule exI [of _ "''com''"])
       (simp add: py_isspace_def)
  have N: "\<not> email_pattern_lang ''123mail.com''"
    by (simp add: email_pattern_lang_def append_eq_Cons_conv Cons_eq_append_conv)
  let ?H = "\<lambda>r s b. replicate 31 CHR ''.''" and ?salt = "replicate 22 CHR ''s''"
  have A: "sellers_table (snd (create_seller ?H ?salt
      (Some (JObj [(''first_name'', JStr ''1''), (''last_name'', JStr ''1''), (''email'', JStr ''123@mail.com''),
                   (''password'', JStr ''123123123123'')])) empty_db)) \<noteq> sellers_table empty_db"
    using create_seller_stores_iff_valid [where H = ?H and salt = ?salt and d = empty_db
            and body = "Some (JObj [(''first_name'', JStr ''1''), (''last_name'', JStr ''1''),
                        (''email'', JStr ''123@mail.com''), (''password'', JStr ''123123123123'')])"]
    using P by simp
  have B: "sellers_table (snd (create_seller ?H ?salt
      (Some (JObj [(''first_name'', JStr ''1''), (''last_name'', JStr ''1''), (''email'', JStr ''123mail.com''),
                   (''password'', JStr ''123123123123'')])) empty_db)) = sellers_table empty_db"
    using create_seller_stores_iff_valid [where H = ?H and salt = ?salt and d = empty_db
            and body = "Some (JObj [(''first_name'', JStr ''1''), (''last_name'', JStr ''1''),
                        (''email'', JStr ''123mail.com''), (''password'', JStr ''123123123123'')])"]
    using N by simp
  show ?thesis using A B by blast
qed

text \<open>
  Claim C15. Every request to the seller router preserves the integrity of the tables:
  distinct, positive primary keys below the counter, lowercase stored emails, and books
  that refer to a stored seller (delete's cascade keeps the foreign key).
\<close>

theorem seller_api_preserves_inv:
  assumes "db_inv d"
  shows "db_inv (snd (seller_api H dec cfg bj req d))"
  using assms by (rule db_inv_seller_api)

theorem seller_api_preserves_inv_witness:
  "db_inv empty_db \<and>
   db_inv (snd (seller_api (\<lambda>r s b. replicate 31 CHR ''.'') (\<lambda>t k a. Inl InvalidSignatureError)
     \<lparr>secret_key = ''k'', algorithm = ''HS256''\<rparr> (\<lambda>b. JNull)
     (CreateSeller (replicate 22 CHR ''a'') (Some (JObj [(''first_name'', JStr ''1''), (''last_name'', JStr ''1''),
        (''email'', JStr ''123@mail.com''), (''password'', JStr ''123123123123'')]))) empty_db))"
  using db_inv_empty seller_api_preserves_inv [OF db_inv_empty] by blast

text \<open>
  Claim C16. In every state the API can reach, verification of a stored password
  returns a boolean for every candidate of at most 4096 bytes without NUL: the
  \<open>ValueError\<close> of claim C8 needs a row the routes never write.
\<close>

theorem reachable_verify_total:
  assumes "api_reachable H dec cfg bj d" and "bcrypt_fn_ok H" and "r \<in> set (sellers_table d)"
    and "length (utf8_encode pw) \<le> 4096" and "CHR 0x00 \<notin> set (utf8_encode pw)"
  shows "\<exists>b. verify_password H pw (seller_password r) = Inr b"
proof -
  have "passwords_issued d" using api_reachable_invs [OF assms(1,2)] by blast
  then have "issued_hash (seller_password r)"
    using assms(3) by (simp add: passwords_issued_def list_all_iff)
  then show ?thesis using assms(4,5) by (rule verify_password_issued_total)
qed

theorem reachable_verify_total_witness:
  "api_reachable (\<lambda>r s b. replicate 31 CHR ''.'') (\<lambda>t k a. Inl InvalidSignatureError)
     \<lparr>secret_key = ''k'', algorithm = ''HS256''\<rparr> (\<lambda>b. JNull)
     \<lparr>sellers_table = [\<lparr>seller_id = 1, seller_first_name = ''1'', seller_last_name = ''1'',
        seller_email = ''123@mail.com'',
        seller_password = ''$2b$12$'' @ replicate 22 CHR ''a'' @ replicate 31 CHR ''.''\<rparr>],
      books_table = [], next_seller_id = 2, next_book_id = 1\<rparr> \<and>
   (\<exists>b. verify_password (\<lambda>r s b. replicate 31 CHR ''.'') ''123123123123''
          (''$2b$12$'' @ replicate 22 CHR ''a'' @ replicate 31 CHR ''.'') = Inr b)"
proof -
  let ?H = "(\<lambda>r s b. replicate 31 CHR ''.'') :: bcrypt_fn"
  let ?dec = "(\<lambda>t k a. Inl InvalidSignatureError) :: jwt_decoder"
  let ?cfg = "\<lparr>secret_key = ''k'', algorithm = ''HS256''\<rparr>"
  let ?req = "CreateSeller (replicate 22 CHR ''a'') (Some (JObj [(''first_name'', JStr ''1''),
        (''last_name'', JStr ''1''), (''email'', JStr ''123@mail.com''), (''password'', JStr ''123123123123'')]))"
  let ?r = "\<lparr>seller_id = 1, seller_first_name = ''1'', seller_last_name = ''1'',
        seller_email = ''123@mail.com'',
        seller_password = ''$2b$12$'' @ replicate 22 CHR ''a'' @ replicate 31 CHR ''.''\<rparr>"
  let ?d = "\<lparr>sellers_table = [?r], books_table = [], next_seller_id = 2, next_book_id = 1\<rparr>"
  have H: "bcrypt_fn_ok ?H" by (simp add: bcrypt_fn_ok_def is_bcrypt64_def bcrypt64_chars_def)
  have S: "request_salt_ok ?req" by (simp add: bcrypt_salt_ok_def is_bcrypt64_def bcrypt64_chars_def)
  have E: "snd (seller_api ?H ?dec ?cfg (\<lambda>b. JNull) ?req empty_db) = ?d"
    by code_simp
  have R: "api_reachable ?H ?dec ?cfg (\<lambda>b. JNull) ?d"
    using api_reachable.request [OF api_reachable.start [of ?H ?dec ?cfg "\<lambda>b. JNull"] S]
    by (simp only: E)
  have "\<exists>b. verify_password ?H ''123123123123'' (seller_password ?r) = Inr b"
    by (rule reachable_verify_total [OF R H]) (simp_all add: utf8_encode_ascii)
  then show ?thesis using R by simp
qed

text \<open>
  Claim C17. Deleting a seller answers 204 whether or not the seller exists, removes every
  row with that primary key, and removes the seller's books with it: on tables with
  the invariant no book is left that refers to the deleted id.
\<close>

theorem delete_seller_cascade:
  assumes "db_inv d"
  shows "fst (delete_seller sid d) = Inr (Response 204 '''')
       \<and> sellers_table (snd (delete_seller sid d)) = filter (\<lambda>r. int (seller_id r) \<noteq> sid) (sellers_table d)
       \<and> books_table (snd (delete_seller sid d)) = filter (\<lambda>b. int (book_seller_id b) \<noteq> sid) (books_table d)"
proof (cases "get_seller_row d sid")
  case None
  then have no: "\<forall>x \<in> set (sellers_table d). int (seller_id x) \<noteq> sid"
    by (simp add: get_seller_row_None)
  then have "\<forall>b \<in> set (books_table d). int (book_seller_id b) \<noteq> sid"
    using assms by (fastforce simp: db_inv_def list_all_iff)
  with no None show ?thesis
    by (simp add: delete_seller_def filter_id_conv)
next
  case (Some r)
  then have i: "int (seller_id r) = sid" using get_seller_row_Some by blast
  have "filter (\<lambda>x. seller_id x \<noteq> seller_id r) (sellers_table d) =
        filter (\<lambda>x. int (seller_id x) \<noteq> sid) (sellers_table d)"
    using i by (intro filter_cong) auto
  moreover have "filter (\<lambda>b. book_seller_id b \<noteq> seller_id r) (books_table d) =
        filter (\<lambda>b. int (book_seller_id b) \<noteq> sid) (books_table d)"
    using i by (intro filter_cong) auto
  ultimately show ?thesis using Some by (simp add: delete_seller_def)
qed

theorem delete_seller_cascade_witness:
  "db_inv \<lparr>sellers_table = [\<lparr>seller_id = 1, seller_first_name = ''Vasya'', seller_last_name = ''Onegin'',
        seller_email = ''123@email.com,'', seller_password = ''password123123''\<rparr>],
      books_table = [\<lparr>book_id = 1, book_title = ''Eugeny Onegin'', book_author = ''Pushkin'',
        book_year = 2001, book_count_pages = 104, book_seller_id = 1\<rparr>],
      next_seller_id = 2, next_book_id = 2\<rparr> \<and>
   delete_seller 1 \<lparr>sellers_table = [\<lparr>seller_id = 1, seller_first_name = ''Vasya'', seller_last_name = ''Onegin'',
        seller_email = ''123@email.com,'', seller_password = ''password123123''\<rparr>],
      books_table = [\<lparr>book_id = 1, book_title = ''Eugeny Onegin'', book_author = ''Pushkin'',
        book_year = 2001, book_count_pages = 104, book_seller_id = 1\<rparr>],
      next_seller_id = 2, next_book_id = 2\<rparr>
   = (Inr (Response 204 ''''), \<lparr>sellers_table = [], books_table = [], next_seller_id = 2, next_book_id = 2\<rparr>)"
proof -
  let ?d = "\<lparr>sellers_table = [\<lparr>seller_id = 1, seller_first_name = ''Vasya'', seller_last_name = ''Onegin'',
        seller_email = ''123@email.com,'', seller_password = ''password123123''\<rparr>],
      books_table = [\<lparr>book_id = 1, book_title = ''Eugeny Onegin'', book_author = ''Pushkin'',
        book_year = 2001, book_count_pages = 104, book_seller_id = 1\<rparr>],
      next_seller_id = 2, next_book_id = 2\<rparr>"
  have I: "db_inv ?d" by code_simp
  have "fst (delete_seller 1 ?d) = Inr (Response 204 '''') \<and>
        sellers_table (snd (delete_seller 1 ?d)) = [] \<and> books_table (snd (delete_seller 1 ?d)) = []"
    using delete_seller_cascade [OF I, of 1] by simp
  moreover have "next_seller_id (snd (delete_seller 1 ?d)) = 2 \<and> next_book_id (snd (delete_seller 1 ?d)) = 2"
    by (simp add: delete_seller_def get_seller_row_def)
  ultimately show ?thesis using I by (cases "delete_seller 1 ?d") simp
qed

text \<open>
  Claim C18. \<open>update_seller\<close> writes the new email without the check that
  \<open>create_seller\<close> applies (\<open>ReturnedSeller\<close> has no validator): whatever string the
  body carries is stored (lowercased), the row keeps its id and its password hash, and
  the route answers 200.
\<close>

theorem update_seller_unvalidated_email:
  assumes "get_seller_row d sid = Some r"
  shows "get_seller_row (snd (update_seller sid
           (Some (JObj [(''first_name'', JStr f), (''last_name'', JStr l), (''email'', JStr e), (''id'', JInt n)])) d)) sid
         = Some (r\<lparr>seller_first_name := f, seller_last_name := l, seller_email := email_bind e\<rparr>)
       \<and> status_of 200 (fst (update_seller sid
           (Some (JObj [(''first_name'', JStr f), (''last_name'', JStr l), (''email'', JStr e), (''id'', JInt n)])) d)) = 200"
proof -
  let ?nd = "\<lparr>first_name = f, last_name = l, email = e, returned_id = n\<rparr>"
  have u: "update_seller sid (Some (JObj [(''first_name'', JStr f), (''last_name'', JStr l), (''email'', JStr e), (''id'', JInt n)])) d
        = (Inr (Return (returned_seller_json \<lparr>first_name = f, last_name = l, email = e, returned_id = int (seller_id r)\<rparr>)),
           d\<lparr>sellers_table := map (\<lambda>x. if seller_id x = seller_id r then updated_row r ?nd else x) (sellers_table d)\<rparr>)"
    using assms by (simp add: update_seller_def validate_returned_seller_object)
  have "updated_row r ?nd = r\<lparr>seller_first_name := f, seller_last_name := l, seller_email := email_bind e\<rparr>"
    by (simp add: updated_row_def)
  then show ?thesis
    using get_seller_row_replace [OF assms, of "updated_row r ?nd"] u by simp
qed

theorem update_seller_unvalidated_email_witness:
  "get_seller_row \<lparr>sellers_table = [\<lparr>seller_id = 1, seller_first_name = ''Pushkin'', seller_last_name = ''Pushkin'',
        seller_email = ''123@email.com'', seller_password = ''123123123123312''\<rparr>],
      books_table = [], next_seller_id = 2, next_book_id = 1\<rparr> 1 =
     Some \<lparr>seller_id = 1, seller_first_name = ''Pushkin'', seller_last_name = ''Pushkin'',
        seller_email = ''123@email.com'', seller_password = ''123123123123312''\<rparr> \<and>
   \<not> email_match ''not an email'' \<and>
   get_seller_row (snd (update_seller 1
     (Some (JObj [(''first_name'', JStr ''vasya''), (''last_name'', JStr ''Pushkin''), (''email'', JStr ''not an email''), (''id'', JInt 7)]))
     \<lparr>sellers_table = [\<lparr>seller_id = 1, seller_first_name = ''Pushkin'', seller_last_name = ''Pushkin'',
        seller_email = ''123@email.com'', seller_password = ''123123123123312''\<rparr>],
      books_table = [], next_seller_id = 2, next_book_id = 1\<rparr>)) 1 =
     Some \<lparr>seller_id = 1, seller_first_name = ''vasya'', seller_last_name = ''Pushkin'',
        seller_email = email_bind ''not an email'', seller_password = ''123123123123312''\<rparr>"
proof -
  let ?d = "\<lparr>sellers_table = [\<lparr>seller_id = 1, seller_first_name = ''Pushkin'', seller_last_name = ''Pushkin'',
        seller_email = ''123@email.com'', seller_password = ''123123123123312''\<rparr>],
      books_table = [], next_seller_id = 2, next_book_id = 1\<rparr>"
  have G: "get_seller_row ?d 1 = Some \<lparr>seller_id = 1, seller_first_name = ''Pushkin'', seller_last_name = ''Pushkin'',
        seller_email = ''123@email.com'', seller_password = ''123123123123312''\<rparr>"
    by (simp add: get_seller_row_def)
  have M: "\<not> email_match ''not an email''" by code_simp
  show ?thesis
    using G M update_seller_unvalidated_email [OF G, of "''vasya''" "''Pushkin''" "''not an email''" 7]
    by simp
qed

text \<open>
  Claim C19. A caller whom the gate does not authorize learns nothing about the tables
  from \<open>GET /seller/{seller_id}\<close>: the answer is the same for every state of the
  database, and the state is left unchanged.
\<close>

theorem get_seller_route_no_leak:
  assumes "\<not> (gate_step dec cfg body)\<^sup>*\<^sup>* Received Authorized"
  shows "\<exists>res. \<forall>d. get_seller_route dec cfg bj body sid d = (res, d)"
  using protect_with_token_unauthorized [OF assms] unfolding get_seller_route_def by metis

theorem get_seller_route_no_leak_witness:
  "\<not> (gate_step (\<lambda>t k a. Inl InvalidSignatureError) \<lparr>secret_key = ''k'', algorithm = ''HS256''\<rparr>
      (Some (JObj [])))\<^sup>*\<^sup>* Received Authorized \<and>
   (\<exists>res. \<forall>d. get_seller_route (\<lambda>t k a. Inl InvalidSignatureError) \<lparr>secret_key = ''k'', algorithm = ''HS256''\<rparr>
      (\<lambda>b. JNull) (Some (JObj [])) 1 d = (res, d))"
proof -
  have n: "\<not> (gate_step (\<lambda>t k a. Inl InvalidSignatureError) \<lparr>secret_key = ''k'', algorithm = ''HS256''\<rparr>
      (Some (JObj [])))\<^sup>*\<^sup>* Received Authorized"
    by (simp add: gate_reaches_Authorized_iff gate_verdict_def)
  show ?thesis using n get_seller_route_no_leak [OF n, of "\<lambda>b. JNull" 1] by blast
qed

section \<open>No route returns a password\<close>

lemma json_keys_returned_seller [simp]: "json_keys (returned_seller_json r) = [''first_name'', ''last_name'', ''email'', ''id'']"
  by (simp add: returned_seller_json_def)

lemma json_keys_seller_row [simp]: "json_keys (seller_row_json r) = [''first_name'', ''last_name'', ''email'', ''id'']"
  by (simp add: seller_row_json_def)

lemma get_seller_Return_keys:
  assumes "fst (get_seller bj i d) = Inr (Return j)"
    and "\<forall>b \<in> set (books_table d). ''password'' \<notin> set (json_keys (bj b))"
  shows "''password'' \<notin> set (json_keys j)"
  using assms by (auto simp: get_seller_def returned_seller_with_books_json_def Let_def split: option.splits)

text \<open>
  Claim C33. Password secrecy: no value a seller route returns carries a member named
  \<open>password\<close>, at any depth, provided the serialized books do not. The stored hash
  never leaves the service through the seller routes, whatever the request and the state.
\<close>

theorem seller_api_no_password_field:
  assumes "fst (seller_api H dec cfg bj req d) = Inr (Return j)"
    and "\<forall>b \<in> set (books_table d). ''password'' \<notin> set (json_keys (bj b))"
  shows "''password'' \<notin> set (json_keys j)"
proof (cases req)
  case (CreateSeller salt body)
  then show ?thesis using assms(1)
    by (auto simp: create_seller_def Let_def unprocessable_def split: option.splits sum.splits)
next
  case ListSellers
  then show ?thesis using assms(1) by (auto simp: get_all_sellers_def split: if_splits)
next
  case (GetSeller i body)
  have "fst (protect_with_token dec cfg (get_seller bj) body i d) = Inr (Return j)"
    using assms(1) GetSeller by (simp add: get_seller_route_def)
  then have "fst (get_seller bj i d) = Inr (Return j)"
    using protect_with_token_Return by metis
  then show ?thesis using get_seller_Return_keys assms(2) by blast
next
  case (UpdateSeller i body)
  then show ?thesis using assms(1)
    by (auto simp: update_seller_def Let_def unprocessable_def split: option.splits sum.splits)
next
  case (DeleteSeller i)
  then show ?thesis using assms(1) by (auto simp: delete_seller_def split: option.splits)
qed

theorem seller_api_no_password_field_witness:
  "fst (seller_api (\<lambda>r s b. b) (\<lambda>t k a. Inl InvalidSignatureError) \<lparr>secret_key = ''k'', algorithm = ''HS256''\<rparr> (\<lambda>b. JNull) ListSellers test_get_sellers_db) =
     Inr (Return (JObj [(''sellers'', JList
       [JObj [(''first_name'', JStr ''1''), (''last_name'', JStr ''2''), (''email'', JStr ''123@email.com''), (''id'', JInt 1)],
        JObj [(''first_name'', JStr ''12''), (''last_name'', JStr ''22''), (''email'', JStr ''123@email.com''), (''id'', JInt 2)]])])) \<and>
   ''password'' \<notin> set (json_keys (JObj [(''sellers'', JList
       [JObj [(''first_name'', JStr ''1''), (''last_name'', JStr ''2''), (''email'', JStr ''123@email.com''), (''id'', JInt 1)],
        JObj [(''first_name'', JStr ''12''), (''last_name'', JStr ''22''), (''email'', JStr ''123@email.com''), (''id'', JInt 2)]])]))"
proof -
  have L: "fst (seller_api (\<lambda>r s b. b) (\<lambda>t k a. Inl InvalidSignatureError) \<lparr>secret_key = ''k'', algorithm = ''HS256''\<rparr> (\<lambda>b. JNull) ListSellers test_get_sellers_db) =
     Inr (Return (JObj [(''sellers'', JList
       [JObj [(''first_name'', JStr ''1''), (''last_name'', JStr ''2''), (''email'', JStr ''123@email.com''), (''id'', JInt 1)],
        JObj [(''first_name'', JStr ''12''), (''last_name'', JStr ''22''), (''email'', JStr ''123@email.com''), (''id'', JInt 2)]])]))"
    by code_simp
  have B: "\<forall>b \<in> set (books_table test_get_sellers_db). ''password'' \<notin> set (json_keys ((\<lambda>b. JNull) b))"
    by (simp add: test_get_sellers_db_def)
  show ?thesis using L B seller_api_no_password_field [OF L B] by simp
qed

end
