(* ===== verification/Signature.thy ===== *)
theory Signature
  imports Prelude
begin

text \<open>
  The signature rewriting at the end of \<open>protect_with_token\<close> (\<open>decorators.py\<close>, lines
  23-34). FastAPI reads a route's parameters from \<open>__signature__\<close>; the decorator
  sets it to the wrapped function's parameters followed by the wrapper's own, without
  \<open>*args\<close> and \<open>**kwargs\<close>. The \<open>inspect.Signature\<close> constructor validates the list
  (\<open>__validate_parameters__\<close>): parameter kinds must not decrease, a positional
  parameter without default may not follow one with a default, and names must be
  distinct; otherwise it raises \<open>ValueError\<close>, at import time of the router module.
\<close>

section \<open>Parameters\<close>

text \<open>\<open>inspect._ParameterKind\<close>, an ordered enumeration (values 0 to 4).\<close>

datatype param_kind =
    POSITIONAL_ONLY
  | POSITIONAL_OR_KEYWORD
  | VAR_POSITIONAL
  | KEYWORD_ONLY
  | VAR_KEYWORD

fun kind_value :: "param_kind \<Rightarrow> nat" where
  "kind_value POSITIONAL_ONLY = 0"
| "kind_value POSITIONAL_OR_KEYWORD = 1"
| "kind_value VAR_POSITIONAL = 2"
| "kind_value KEYWORD_ONLY = 3"
| "kind_value VAR_KEYWORD = 4"

instantiation param_kind :: linorder
begin

definition less_eq_param_kind :: "param_kind \<Rightarrow> param_kind \<Rightarrow> bool" where
  "less_eq_param_kind a b \<longleftrightarrow> kind_value a \<le> kind_value b"

definition less_param_kind :: "param_kind \<Rightarrow> param_kind \<Rightarrow> bool" where
  "less_param_kind a b \<longleftrightarrow> kind_value a < kind_value b"

instance
proof
  fix x y :: param_kind
  assume "x \<le> y" "y \<le> x"
  then show "x = y" by (cases x; cases y) (simp_all add: less_eq_param_kind_def)
qed (auto simp: less_eq_param_kind_def less_param_kind_def)

end

text \<open>An \<open>inspect.Parameter\<close>: its name, its kind, and whether it has a default.\<close>

record param =
  p_name :: string
  p_kind :: param_kind
  p_has_default :: bool

text \<open>\<open>Signature.__init__\<close>'s loop state: the highest kind so far, whether a positional
  parameter with a default was seen, and the names so far.\<close>

type_synonym sig_state = "param_kind \<times> bool \<times> string list"

definition positional :: "param_kind \<Rightarrow> bool" where
  "positional k \<longleftrightarrow> k \<le> POSITIONAL_OR_KEYWORD"

text \<open>One iteration of the validation loop of \<open>Signature.__init__\<close>.\<close>

definition sig_step :: "sig_state \<Rightarrow> param \<Rightarrow> py_exc + sig_state" where
  "sig_step st p =
     (case st of (tk, seen, names) \<Rightarrow>
        if p_kind p < tk then Inl (ValueError ''wrong parameter order'')
        else
          (let tk' = max tk (p_kind p) in
           if positional (p_kind p) \<and> \<not> p_has_default p \<and> seen
           then Inl (ValueError ''non-default argument follows default argument'')
           else
             (let seen' = (seen \<or> (positional (p_kind p) \<and> p_has_default p)) in
              if p_name p \<in> set names then Inl (ValueError ''duplicate parameter name'')
              else Inr (tk', seen', p_name p # names))))"

fun sig_fold :: "sig_state \<Rightarrow> param list \<Rightarrow> py_exc + sig_state" where
  "sig_fold st [] = Inr st"
| "sig_fold st (p # ps) = (case sig_step st p of Inl e \<Rightarrow> Inl e | Inr st' \<Rightarrow> sig_fold st' ps)"

text \<open>\<open>inspect.Signature(parameters=ps)\<close>: the validated parameter list.\<close>

definition make_signature :: "param list \<Rightarrow> py_exc + param list" where
  "make_signature ps =
     (case sig_fold (POSITIONAL_ONLY, False, []) ps of Inl e \<Rightarrow> Inl e | Inr _ \<Rightarrow> Inr ps)"

section \<open>The rewritten signature\<close>

text \<open>\<open>protector(request: Request, *args, **kwargs)\<close>, line 7.\<close>

definition protector_params :: "param list" where
  "protector_params =
     [\<lparr>p_name = ''request'', p_kind = POSITIONAL_OR_KEYWORD, p_has_default = False\<rparr>,
      \<lparr>p_name = ''args'', p_kind = VAR_POSITIONAL, p_has_default = False\<rparr>,
      \<lparr>p_name = ''kwargs'', p_kind = VAR_KEYWORD, p_has_default = False\<rparr>]"

text \<open>
  Lines 23-34: the parameters of \<open>f\<close>, then those of \<open>protector\<close> that are neither
  \<open>VAR_POSITIONAL\<close> nor \<open>VAR_KEYWORD\<close>.
\<close>

definition protector_signature :: "param list \<Rightarrow> py_exc + param list" where
  "protector_signature f_params =
     make_signature (f_params @ filter (\<lambda>p. p_kind p \<notin> {VAR_POSITIONAL, VAR_KEYWORD}) protector_params)"

section \<open>Lemmas\<close>

lemma sig_fold_append:
  "sig_fold st (ps @ qs) = (case sig_fold st ps of Inl e \<Rightarrow> Inl e | Inr st' \<Rightarrow> sig_fold st' qs)"
  by (induction ps arbitrary: st) (auto split: sum.split)

text \<open>What the loop has accumulated after a valid prefix.\<close>

lemma sig_fold_Inr:
  "sig_fold (tk, seen, names) ps = Inr (tk', seen', names') \<Longrightarrow>
   tk' = foldl max tk (map p_kind ps) \<and>
   seen' = (seen \<or> list_ex (\<lambda>p. positional (p_kind p) \<and> p_has_default p) ps) \<and>
   names' = rev (map p_name ps) @ names"
proof (induction ps arbitrary: tk seen names)
  case Nil
  then show ?case by simp
next
  case (Cons p ps)
  then show ?case
    by (auto simp: sig_step_def Let_def split: if_splits sum.splits)
qed

lemma foldl_max_le_iff:
  "foldl max a xs \<le> (b :: 'a :: linorder) \<longleftrightarrow> a \<le> b \<and> (\<forall>x \<in> set xs. x \<le> b)"
  by (induction xs arbitrary: a) auto

lemma protector_params_kept:
  "filter (\<lambda>p. p_kind p \<notin> {VAR_POSITIONAL, VAR_KEYWORD}) protector_params =
     [\<lparr>p_name = ''request'', p_kind = POSITIONAL_OR_KEYWORD, p_has_default = False\<rparr>]"
  by (simp add: protector_params_def)

lemma POSITIONAL_ONLY_least [simp]: "POSITIONAL_ONLY \<le> k"
  by (simp add: less_eq_param_kind_def)

section \<open>Properties of the signature rewriting\<close>

text \<open>
  Claim C22. For a route function with a valid signature, decorating it succeeds exactly
  when every parameter is positional (positional-only or positional-or-keyword),
  has no default and is not named \<open>request\<close>; the new signature is then the route's
  parameters followed by \<open>request\<close>. Otherwise \<open>inspect.Signature\<close> raises
  \<open>ValueError\<close> and the module defining the route cannot be imported.
\<close>

theorem protector_signature_iff:
  assumes "make_signature f_params = Inr f_params"
  shows "(list_all (\<lambda>p. positional (p_kind p) \<and> \<not> p_has_default p \<and> p_name p \<noteq> ''request'') f_params \<longrightarrow>
            protector_signature f_params =
              Inr (f_params @ [\<lparr>p_name = ''request'', p_kind = POSITIONAL_OR_KEYWORD, p_has_default = False\<rparr>]))
       \<and> (\<not> list_all (\<lambda>p. positional (p_kind p) \<and> \<not> p_has_default p \<and> p_name p \<noteq> ''request'') f_params \<longrightarrow>
            (\<exists>m. protector_signature f_params = Inl (ValueError m)))"
proof -
  obtain st where st: "sig_fold (POSITIONAL_ONLY, False, []) f_params = Inr st"
    using assms by (auto simp: make_signature_def split: sum.splits)
  obtain tk seen names where st3: "st = (tk, seen, names)" by (cases st) auto
  from sig_fold_Inr [OF st [unfolded st3]] have
    tk: "tk = foldl max POSITIONAL_ONLY (map p_kind f_params)" and
    seen: "seen = list_ex (\<lambda>p. positional (p_kind p) \<and> p_has_default p) f_params" and
    names: "names = rev (map p_name f_params)"
    by simp_all
  let ?req = "\<lparr>p_name = ''request'', p_kind = POSITIONAL_OR_KEYWORD, p_has_default = False\<rparr>"
  have ps: "protector_signature f_params =
      (case sig_step (tk, seen, names) ?req of Inl e \<Rightarrow> Inl e | Inr _ \<Rightarrow> Inr (f_params @ [?req]))"
    unfolding protector_signature_def protector_params_kept
    by (simp add: make_signature_def sig_fold_append st st3 split: sum.split)
  have tk_le: "tk \<le> POSITIONAL_OR_KEYWORD \<longleftrightarrow> (\<forall>p \<in> set f_params. positional (p_kind p))"
    by (simp add: tk foldl_max_le_iff positional_def)
  have lt: "POSITIONAL_OR_KEYWORD < tk \<longleftrightarrow> \<not> tk \<le> POSITIONAL_OR_KEYWORD" by auto
  have pos: "positional POSITIONAL_OR_KEYWORD" by (simp add: positional_def)
  show ?thesis
  proof (intro conjI impI)
    assume "list_all (\<lambda>p. positional (p_kind p) \<and> \<not> p_has_default p \<and> p_name p \<noteq> ''request'') f_params"
    then show "protector_signature f_params = Inr (f_params @ [?req])"
      using tk_le by (auto simp: ps sig_step_def lt seen names list_all_iff list_ex_iff)
  next
    assume "\<not> list_all (\<lambda>p. positional (p_kind p) \<and> \<not> p_has_default p \<and> p_name p \<noteq> ''request'') f_params"
    then show "\<exists>m. protector_signature f_params = Inl (ValueError m)"
      using tk_le pos by (auto simp: ps sig_step_def Let_def lt seen names list_all_iff list_ex_iff)
        (metis image_eqI)
  qed
qed

theorem protector_signature_iff_witness:
  "make_signature [\<lparr>p_name = ''seller_id'', p_kind = POSITIONAL_OR_KEYWORD, p_has_default = False\<rparr>,
                   \<lparr>p_name = ''session'', p_kind = POSITIONAL_OR_KEYWORD, p_has_default = False\<rparr>] =
     Inr [\<lparr>p_name = ''seller_id'', p_kind = POSITIONAL_OR_KEYWORD, p_has_default = False\<rparr>,
          \<lparr>p_name = ''session'', p_kind = POSITIONAL_OR_KEYWORD, p_has_default = False\<rparr>] \<and>
   protector_signature [\<lparr>p_name = ''seller_id'', p_kind = POSITIONAL_OR_KEYWORD, p_has_default = False\<rparr>,
                        \<lparr>p_name = ''session'', p_kind = POSITIONAL_OR_KEYWORD, p_has_default = False\<rparr>] =
     Inr [\<lparr>p_name = ''seller_id'', p_kind = POSITIONAL_OR_KEYWORD, p_has_default = False\<rparr>,
          \<lparr>p_name = ''session'', p_kind = POSITIONAL_OR_KEYWORD, p_has_default = False\<rparr>,
          \<lparr>p_name = ''request'', p_kind = POSITIONAL_OR_KEYWORD, p_has_default = False\<rparr>] \<and>
   make_signature [\<lparr>p_name = ''limit'', p_kind = POSITIONAL_OR_KEYWORD, p_has_default = True\<rparr>] =
     Inr [\<lparr>p_name = ''limit'', p_kind = POSITIONAL_OR_KEYWORD, p_has_default = True\<rparr>] \<and>
   (\<exists>m. protector_signature [\<lparr>p_name = ''limit'', p_kind = POSITIONAL_OR_KEYWORD, p_has_default = True\<rparr>] =
     Inl (ValueError m))"
proof -
  let ?ok = "[\<lparr>p_name = ''seller_id'', p_kind = POSITIONAL_OR_KEYWORD, p_has_default = False\<rparr>,
              \<lparr>p_name = ''session'', p_kind = POSITIONAL_OR_KEYWORD, p_has_default = False\<rparr>]"
  let ?bad = "[\<lparr>p_name = ''limit'', p_kind = POSITIONAL_OR_KEYWORD, p_has_default = True\<rparr>]"
  have M1: "make_signature ?ok = Inr ?ok" by code_simp
  have M2: "make_signature ?bad = Inr ?bad" by code_simp
  have P: "positional POSITIONAL_OR_KEYWORD" by (simp add: positional_def)
  show ?thesis
    using M1 M2 protector_signature_iff [OF M1] protector_signature_iff [OF M2] P by simp
qed

end
