(* ===== verification/Base64.thy ===== *)
theory Base64
  imports Prelude
begin

text \<open>
  The base64url layer of PyJWT (\<open>jwt.utils.base64url_encode\<close> and
  \<open>base64url_decode\<close>). Encoding is RFC 4648 base64 with the URL-safe alphabet and the
  \<open>=\<close> padding removed. Decoding pads the text with \<open>=\<close> to a multiple of four,
  translates \<open>-\<close> and \<open>_\<close> to \<open>+\<close> and \<open>/\<close> (\<open>base64.urlsafe_b64decode\<close>), and runs
  CPython's \<open>binascii.a2b_base64\<close> in its default, non-strict mode. That decoder is a
  state machine over the quad position, the count of pad characters and the leftover
  bits. It skips characters outside the alphabet, stops at a complete pad sequence, and
  drops the unused low bits of the last character. Bytes are \<open>char\<close>s; a decoding error
  (\<open>binascii.Error\<close>) is \<open>None\<close>.
\<close>

section \<open>Alphabets\<close>

text \<open>The URL-safe symbol of a sextet: \<open>A-Z\<close>, \<open>a-z\<close>, \<open>0-9\<close>, \<open>-\<close>, \<open>_\<close>.\<close>

definition url_char :: "nat \<Rightarrow> char" where
  "url_char i =
     (if i < 26 then char_of (i + 65)
      else if i < 52 then char_of (i + 71)
      else if i < 62 then char_of (i - 4)
      else if i = 62 then CHR ''-'' else CHR ''_'')"

text \<open>\<open>table_a2b_base64\<close>: the value of a symbol of the standard alphabet.\<close>

definition b64_value :: "char \<Rightarrow> nat option" where
  "b64_value c =
     (let n = of_char c :: nat in
      if 65 \<le> n \<and> n \<le> 90 then Some (n - 65)
      else if 97 \<le> n \<and> n \<le> 122 then Some (n - 71)
      else if 48 \<le> n \<and> n \<le> 57 then Some (n + 4)
      else if n = 43 then Some 62
      else if n = 47 then Some 63
      else None)"

text \<open>\<open>bytes.maketrans(b'-_', b'+/')\<close>.\<close>

definition urlsafe_translate :: "char \<Rightarrow> char" where
  "urlsafe_translate c = (if c = CHR ''-'' then CHR ''+'' else if c = CHR ''_'' then CHR ''/'' else c)"

section \<open>Encoding\<close>

text \<open>
  \<open>base64.urlsafe_b64encode(s).replace(b"=", b"")\<close>: every three bytes become four
  symbols; a last group of two bytes becomes three symbols and a last single byte two,
  the unused low bits of the last symbol being zero.
\<close>

fun b64url_encode :: "string \<Rightarrow> string" where
  "b64url_encode (a # b # c # rest) =
     (let x = of_char a; y = of_char b; z = of_char c in
      [url_char (x div 4), url_char (x mod 4 * 16 + y div 16),
       url_char (y mod 16 * 4 + z div 64), url_char (z mod 64)]) @ b64url_encode rest"
| "b64url_encode [a, b] =
     (let x = of_char a; y = of_char b in
      [url_char (x div 4), url_char (x mod 4 * 16 + y div 16), url_char (y mod 16 * 4)])"
| "b64url_encode [a] = (let x = of_char a in [url_char (x div 4), url_char (x mod 4 * 16)])"
| "b64url_encode [] = []"

section \<open>CPython's decoder\<close>

text \<open>
  \<open>binascii.a2b_base64(s, strict_mode=False)\<close> (Modules/binascii.c). The state is the
  position in the current quad, the number of pad characters seen since the last data
  character, the leftover bits, and the bytes written so far. A pad character counts only
  from the third position of a quad on, and once the quad is complete with its pads the
  decoder stops and ignores the rest. At the end of the input a partial quad is an
  error.
\<close>

fun a2b_base64 :: "nat \<Rightarrow> nat \<Rightarrow> nat \<Rightarrow> string \<Rightarrow> string \<Rightarrow> string option" where
  "a2b_base64 q pads leftchar out [] = (if q = 0 then Some out else None)"
| "a2b_base64 q pads leftchar out (c # cs) =
     (if c = CHR ''='' then
        (if 2 \<le> q \<and> 4 \<le> q + (pads + 1) then Some out
         else a2b_base64 q (if 2 \<le> q then pads + 1 else pads) leftchar out cs)
      else
        (case b64_value c of
           None \<Rightarrow> a2b_base64 q pads leftchar out cs
         | Some v \<Rightarrow>
             (if q = 0 then a2b_base64 1 0 v out cs
              else if q = 1 then a2b_base64 2 0 (v mod 16) (out @ [char_of (leftchar * 4 + v div 16)]) cs
              else if q = 2 then a2b_base64 3 0 (v mod 4) (out @ [char_of (leftchar * 16 + v div 4)]) cs
              else a2b_base64 0 0 0 (out @ [char_of (leftchar * 64 + v)]) cs)))"

text \<open>
  \<open>jwt.utils.base64url_decode\<close>: pad to a multiple of four with \<open>=\<close>, translate the
  URL-safe symbols, decode.
\<close>

definition b64url_decode :: "string \<Rightarrow> string option" where
  "b64url_decode s =
     (let r = length s mod 4;
          padded = (if 0 < r then s @ replicate (4 - r) CHR ''='' else s)
      in a2b_base64 0 0 0 [] (map urlsafe_translate padded))"

section \<open>Lemmas\<close>

lemma of_char_url_char:
  "i < 62 \<Longrightarrow> of_char (url_char i) = (if i < 26 then i + 65 else if i < 52 then i + 71 else i - 4)"
  by (auto simp: url_char_def of_char_of)

lemma b64_value_url_char:
  assumes "i < 64"
  shows "b64_value (urlsafe_translate (url_char i)) = Some i"
proof (cases "i < 62")
  case True
  then have o: "(of_char (url_char i) :: nat) = (if i < 26 then i + 65 else if i < 52 then i + 71 else i - 4)"
    by (rule of_char_url_char)
  have "url_char i \<noteq> CHR ''-''" "url_char i \<noteq> CHR ''_''"
    using o True by (auto split: if_splits dest: arg_cong [where f = "of_char :: char \<Rightarrow> nat"])
  then have "urlsafe_translate (url_char i) = url_char i"
    by (simp add: urlsafe_translate_def)
  with o True show ?thesis by (auto simp: b64_value_def Let_def)
next
  case False
  with assms have "i = 62 \<or> i = 63" by auto
  then show ?thesis
    by (auto simp: url_char_def urlsafe_translate_def b64_value_def)
qed

lemma url_char_not_pad: "i < 64 \<Longrightarrow> urlsafe_translate (url_char i) \<noteq> CHR ''=''"
  using b64_value_url_char [of i] by (auto simp: b64_value_def)

lemma sextet_bounds:
  "(y::nat) < 256 \<Longrightarrow> z < 256 \<Longrightarrow> x < 256 \<Longrightarrow>
   x div 4 < 64 \<and> x mod 4 * 16 + y div 16 < 64 \<and> y mod 16 * 4 + z div 64 < 64 \<and> z mod 64 < 64"
  by auto

lemma sextet_recombine:
  "(y::nat) < 256 \<Longrightarrow> x div 4 * 4 + (x mod 4 * 16 + y div 16) div 16 = x"
  "(y::nat) < 256 \<Longrightarrow> (z::nat) < 256 \<Longrightarrow>
   (x mod 4 * 16 + y div 16) mod 16 * 16 + (y mod 16 * 4 + z div 64) div 4 = y"
  "(z::nat) < 256 \<Longrightarrow> (y mod 16 * 4 + z div 64) mod 4 * 64 + z mod 64 = z"
  by auto

text \<open>Four symbols of the alphabet decode to three bytes, back at the start of a quad.\<close>

lemma a2b_quad:
  assumes "s1 < 64" "s2 < 64" "s3 < 64" "s4 < 64"
  shows "a2b_base64 0 0 0 out (map urlsafe_translate [url_char s1, url_char s2, url_char s3, url_char s4] @ cs)
         = a2b_base64 0 0 0 (out @ [char_of (s1 * 4 + s2 div 16), char_of (s2 mod 16 * 16 + s3 div 4),
                                    char_of (s3 mod 4 * 64 + s4)]) cs"
  using assms by (simp add: b64_value_url_char url_char_not_pad)

lemma a2b_group:
  "a2b_base64 0 0 0 out
     (map urlsafe_translate
        [url_char (of_char a div 4), url_char (of_char a mod 4 * 16 + of_char b div 16),
         url_char (of_char b mod 16 * 4 + of_char c div 64), url_char (of_char c mod 64)] @ cs)
   = a2b_base64 0 0 0 (out @ [a, b, c]) cs"
proof -
  let ?x = "of_char a :: nat" and ?y = "of_char b :: nat" and ?z = "of_char c :: nat"
  have y: "?y < 256" and z: "?z < 256" and x: "?x < 256" by simp_all
  show ?thesis
    using sextet_bounds [OF y z x]
    by (simp only: a2b_quad sextet_recombine [OF y] sextet_recombine(2) [OF y z] sextet_recombine(3) [OF z]
        char_of_char)
qed


lemma url_char_inj:
  assumes "i < 64" "j < 64"
  shows "url_char i = url_char j \<longleftrightarrow> i = j"
proof
  assume "url_char i = url_char j"
  then have "b64_value (urlsafe_translate (url_char i)) = b64_value (urlsafe_translate (url_char j))"
    by (rule arg_cong)
  then show "i = j"
    unfolding b64_value_url_char [OF assms(1)] b64_value_url_char [OF assms(2)] by (rule option.inject [THEN iffD1])
qed simp

lemma b64url_encode_append:
  "length xs mod 3 = 0 \<Longrightarrow> b64url_encode (xs @ ys) = b64url_encode xs @ b64url_encode ys"
proof (induction xs rule: b64url_encode.induct)
  case (1 a b c rest)
  then show ?case by (simp only: append_Cons b64url_encode.simps(1)) simp
qed simp_all

lemma length_b64url_encode_mod4:
  "length (b64url_encode bs) mod 4 = (if length bs mod 3 = 0 then 0 else if length bs mod 3 = 1 then 2 else 3)"
proof (induction bs rule: b64url_encode.induct)
  case (1 a b c rest)
  then show ?case by (simp only: b64url_encode.simps(1)) (simp add: Let_def)
qed (simp_all add: Let_def)

lemma a2b_full_groups:
  "length pre mod 3 = 0 \<Longrightarrow>
   a2b_base64 0 0 0 out (map urlsafe_translate (b64url_encode pre) @ cs) = a2b_base64 0 0 0 (out @ pre) cs"
proof (induction pre arbitrary: out rule: b64url_encode.induct)
  case (1 a b c rest)
  then have "length rest mod 3 = 0" by simp
  with "1.IH" show ?case
    by (simp add: Let_def a2b_group [where cs = "map urlsafe_translate (b64url_encode rest) @ cs", simplified])
qed auto

lemma urlsafe_translate_pad [simp]: "urlsafe_translate CHR ''='' = CHR ''=''"
  by (simp add: urlsafe_translate_def)

text \<open>The last quad of a two-byte group: three symbols and one pad.\<close>

lemma a2b_tail3:
  assumes "s1 < 64" "s2 < 64" "s3 < 64"
  shows "a2b_base64 0 0 0 out (map urlsafe_translate [url_char s1, url_char s2, url_char s3, CHR ''=''])
         = Some (out @ [char_of (s1 * 4 + s2 div 16), char_of (s2 mod 16 * 16 + s3 div 4)])"
  using assms by (simp add: b64_value_url_char url_char_not_pad)

text \<open>The last quad of a one-byte group: two symbols and two pads.\<close>

lemma a2b_tail2:
  assumes "s1 < 64" "s2 < 64"
  shows "a2b_base64 0 0 0 out (map urlsafe_translate [url_char s1, url_char s2, CHR ''='', CHR ''=''])
         = Some (out @ [char_of (s1 * 4 + s2 div 16)])"
  using assms by (simp add: b64_value_url_char url_char_not_pad)

lemma b64url_decode_after_groups:
  assumes "length pre mod 3 = 0"
  shows "b64url_decode (b64url_encode pre @ t) =
           a2b_base64 0 0 0 pre (map urlsafe_translate (t @ replicate ((4 - length t mod 4) mod 4) CHR ''=''))"
proof -
  have "length (b64url_encode pre) mod 4 = 0"
    using assms by (simp add: length_b64url_encode_mod4)
  then have r: "length (b64url_encode pre @ t) mod 4 = length t mod 4" by (simp add: mod_add_left_eq [symmetric])
  have pad: "(if 0 < r then s @ replicate (4 - r) CHR ''='' else s) = s @ replicate ((4 - r) mod 4) CHR ''=''"
    if "r < 4" for r :: nat and s :: string
    using that by (cases "r = 0") auto
  have lt: "length t mod 4 < 4" by simp
  let ?p = "replicate ((4 - length t mod 4) mod 4) CHR ''=''"
  have "b64url_decode (b64url_encode pre @ t) =
          a2b_base64 0 0 0 [] (map urlsafe_translate ((b64url_encode pre @ t) @ ?p))"
    unfolding b64url_decode_def Let_def r pad [OF lt] by (rule refl)
  also have "\<dots> = a2b_base64 0 0 0 [] (map urlsafe_translate (b64url_encode pre) @ map urlsafe_translate (t @ ?p))"
    by simp
  also have "\<dots> = a2b_base64 0 0 0 pre (map urlsafe_translate (t @ ?p))"
    using a2b_full_groups [OF assms, of "[]"] by simp
  finally show ?thesis .
qed

lemma last_pair_bytes:
  "(y::nat) < 256 \<Longrightarrow> k < 4 \<Longrightarrow>
   (x mod 4 * 16 + y div 16) mod 16 * 16 + (y mod 16 * 4 + k) div 4 = y"
  by auto

lemma split_groups:
  obtains pre rest where "bs = pre @ rest" "length pre mod 3 = 0" "length rest = length bs mod 3"
proof
  show "bs = take (length bs - length bs mod 3) bs @ drop (length bs - length bs mod 3) bs" by simp
  have "length bs - length bs mod 3 = 3 * (length bs div 3)"
    by (simp add: minus_mod_eq_mult_div)
  then show "length (take (length bs - length bs mod 3) bs) mod 3 = 0"
    by simp
  show "length (drop (length bs - length bs mod 3) bs) = length bs mod 3" by simp
qed

lemma length_b64url_encode: "length (b64url_encode s) = (4 * length s + 2) div 3"
  by (induction s rule: b64url_encode.induct) (simp_all add: Let_def)

section \<open>Properties of the encoding\<close>

text \<open>
  PyJWT's base64url decoding inverts its encoding on every byte string: the
  encoder's output, padded and translated, drives CPython's decoder through whole quads
  and the final partial quad back to exactly the original bytes.
\<close>

theorem b64url_roundtrip: "b64url_decode (b64url_encode bs) = Some bs"
proof -
  obtain pre rest where bs: "bs = pre @ rest" and pre: "length pre mod 3 = 0"
    and rest: "length rest = length bs mod 3"
    by (rule split_groups)
  have "length rest < 3" using rest by simp
  then consider "rest = []" | a where "rest = [a]" | a b where "rest = [a, b]"
    by (cases rest rule: b64url_encode.cases) auto
  then show ?thesis
  proof cases
    case 1
    then show ?thesis using b64url_decode_after_groups [OF pre, of "[]"] bs pre
      by (simp add: b64url_encode_append)
  next
    case (2 a)
    let ?x = "of_char a :: nat"
    have x: "?x < 256" by simp
    have s: "?x div 4 < 64" "?x mod 4 * 16 < 64"
      using sextet_bounds [OF x x x] by auto
    have t: "b64url_encode [a] @ replicate ((4 - length (b64url_encode [a]) mod 4) mod 4) CHR ''='' =
               [url_char (?x div 4), url_char (?x mod 4 * 16), CHR ''='', CHR ''='']"
      by (simp add: Let_def numeral_2_eq_2)
    have c: "char_of (?x div 4 * 4 + ?x mod 4 * 16 div 16) = a" by simp
    have "b64url_decode (b64url_encode bs) = b64url_decode (b64url_encode pre @ b64url_encode [a])"
      using bs 2 pre by (simp add: b64url_encode_append)
    also have "\<dots> = a2b_base64 0 0 0 pre (map urlsafe_translate
                         [url_char (?x div 4), url_char (?x mod 4 * 16), CHR ''='', CHR ''=''])"
      unfolding b64url_decode_after_groups [OF pre] t by (rule refl)
    also have "\<dots> = Some (pre @ [a])"
      unfolding a2b_tail2 [OF s] c by (rule refl)
    finally show ?thesis using bs 2 by simp
  next
    case (3 a b)
    let ?x = "of_char a :: nat" and ?y = "of_char b :: nat"
    have y: "?y < 256" and x: "?x < 256" by simp_all
    have s: "?x div 4 < 64" "?x mod 4 * 16 + ?y div 16 < 64" "?y mod 16 * 4 < 64"
      using sextet_bounds [OF y y x] by auto
    have t: "b64url_encode [a, b] @ replicate ((4 - length (b64url_encode [a, b]) mod 4) mod 4) CHR ''='' =
               [url_char (?x div 4), url_char (?x mod 4 * 16 + ?y div 16), url_char (?y mod 16 * 4), CHR ''='']"
      by (simp add: Let_def)
    have c1: "char_of (?x div 4 * 4 + (?x mod 4 * 16 + ?y div 16) div 16) = a"
      using sextet_recombine(1) [OF y, of ?x] by simp
    have c2: "char_of ((?x mod 4 * 16 + ?y div 16) mod 16 * 16 + ?y mod 16 * 4 div 4) = b"
      using last_pair_bytes [OF y, of 0 ?x] by simp
    have "b64url_decode (b64url_encode bs) = b64url_decode (b64url_encode pre @ b64url_encode [a, b])"
      using bs 3 pre by (simp add: b64url_encode_append)
    also have "\<dots> = a2b_base64 0 0 0 pre (map urlsafe_translate
                 [url_char (?x div 4), url_char (?x mod 4 * 16 + ?y div 16), url_char (?y mod 16 * 4), CHR ''=''])"
      unfolding b64url_decode_after_groups [OF pre] t by (rule refl)
    also have "\<dots> = Some (pre @ [a, b])"
      unfolding a2b_tail3 [OF s] c1 c2 by (rule refl)
    finally show ?thesis using bs 3 by simp
  qed
qed


text \<open>
  Decoding is not injective. When the byte string's length is 2 modulo 3, as
  for every 32-byte HMAC-SHA256 signature, the last symbol carries two unused bits that
  the decoder drops. The four symbols that differ only in those bits all decode to the
  same bytes, and three of them are not the encoder's output. So a token's signature
  segment can be changed in its last character without changing the signature.
\<close>

theorem b64url_decode_malleable:
  assumes "length bs mod 3 = 2" and "k < 4"
  shows "b64url_decode (butlast (b64url_encode bs) @ [url_char (of_char (last bs) mod 16 * 4 + k)]) = Some bs
       \<and> (butlast (b64url_encode bs) @ [url_char (of_char (last bs) mod 16 * 4 + k)] = b64url_encode bs
            \<longleftrightarrow> k = 0)"
proof -
  obtain pre rest where bs: "bs = pre @ rest" and pre: "length pre mod 3 = 0"
    and rest: "length rest = length bs mod 3"
    by (rule split_groups)
  with assms(1) obtain a b where ab: "rest = [a, b]"
    by (cases rest rule: b64url_encode.cases) auto
  let ?x = "of_char a :: nat" and ?y = "of_char b :: nat"
  have y: "?y < 256" and x: "?x < 256" by simp_all
  have s: "?x div 4 < 64" "?x mod 4 * 16 + ?y div 16 < 64" "?y mod 16 * 4 + k < 64"
    using sextet_bounds [OF y y x] assms(2) by auto
  have enc: "b64url_encode bs = b64url_encode pre @
               [url_char (?x div 4), url_char (?x mod 4 * 16 + ?y div 16), url_char (?y mod 16 * 4)]"
    using bs ab pre by (simp add: b64url_encode_append Let_def)
  have last: "last bs = b" using bs ab by simp
  let ?t = "[url_char (?x div 4), url_char (?x mod 4 * 16 + ?y div 16), url_char (?y mod 16 * 4 + k)]"
  have tampered: "butlast (b64url_encode bs) @ [url_char (of_char (last bs) mod 16 * 4 + k)] =
                    b64url_encode pre @ ?t"
    unfolding enc last by (simp add: butlast_append)
  have c1: "char_of (?x div 4 * 4 + (?x mod 4 * 16 + ?y div 16) div 16) = a"
    using sextet_recombine(1) [OF y, of ?x] by simp
  have c2: "char_of ((?x mod 4 * 16 + ?y div 16) mod 16 * 16 + (?y mod 16 * 4 + k) div 4) = b"
    using last_pair_bytes [OF y assms(2), of ?x] by simp
  have "b64url_decode (b64url_encode pre @ ?t) =
          a2b_base64 0 0 0 pre (map urlsafe_translate (?t @ [CHR ''='']))"
    unfolding b64url_decode_after_groups [OF pre] by simp
  also have "\<dots> = Some (pre @ [a, b])"
    using a2b_tail3 [OF s, of pre] c1 c2 by simp
  finally have dec: "b64url_decode (b64url_encode pre @ ?t) = Some bs"
    using bs ab by simp
  have "?y mod 16 * 4 < 64" using s(3) by simp
  then have eq: "(b64url_encode pre @ ?t = b64url_encode bs) \<longleftrightarrow> k = 0"
    unfolding enc using url_char_inj [OF s(3)] by auto
  show ?thesis unfolding tampered using dec eq by simp
qed

theorem b64url_decode_malleable_witness:
  "length ''AB'' mod 3 = 2 \<and> (1::nat) < 4 \<and>
   b64url_encode ''AB'' = ''QUI'' \<and>
   butlast (b64url_encode ''AB'') @ [url_char (of_char (last ''AB'') mod 16 * 4 + 1)] = ''QUJ'' \<and>
   b64url_decode ''QUJ'' = Some ''AB''"
proof -
  have l: "length ''AB'' mod 3 = 2" by simp
  have k: "(1::nat) < 4" by simp
  have e: "b64url_encode ''AB'' = ''QUI''" by code_simp
  have t: "butlast (b64url_encode ''AB'') @ [url_char (of_char (last ''AB'') mod 16 * 4 + 1)] = ''QUJ''"
    by code_simp
  show ?thesis using b64url_decode_malleable [OF l k] e t by simp
qed

end
