(* ===== verification/JsonText.thy ===== *)
theory JsonText
  imports Json
begin

text \<open>
  JSON text, as the Python standard library's \<open>json\<close> module writes and reads it.
  \<open>json_dumps\<close> is \<open>json.dumps(v, separators=(",", ":"))\<close> with the default
  \<open>ensure_ascii=True\<close>, which PyJWT uses for the header and the payload. \<open>json_loads\<close>
  is \<open>json.loads\<close> on bytes: the UTF-8 decoding, then the scanner of
  \<open>Modules/_json.c\<close> (\<open>scan_once_unicode\<close>, \<open>_parse_object_unicode\<close>,
  \<open>_parse_array_unicode\<close>, \<open>scanstring_unicode\<close>, \<open>_match_number_unicode\<close>). The
  scanner's recursion on nested arrays and objects is bounded by the interpreter's
  recursion limit; the remaining budget is the parameter \<open>n\<close>, and exhausting it raises
  \<open>RecursionError\<close>. Characters are code points 0 to 255: a string that decodes to a
  larger code point is outside the model and rejected as a \<open>ValueError\<close>.
\<close>

section \<open>Printing\<close>

abbreviation dquote :: char where "dquote \<equiv> CHR 0x22"
abbreviation bslash :: char where "bslash \<equiv> CHR 0x5C"

definition hex_lower :: "nat \<Rightarrow> char" where
  "hex_lower d = (if d < 10 then char_of (48 + d) else char_of (87 + d))"

text \<open>
  \<open>py_encode_basestring_ascii\<close>: the two-character escapes, and \<open>\u00XX\<close> (lower-case
  hex) for every other character outside the printable ASCII range.
\<close>

definition json_escape_char :: "char \<Rightarrow> string" where
  "json_escape_char c =
     (let n = of_char c :: nat in
      if c = dquote then [bslash, dquote]
      else if c = bslash then [bslash, bslash]
      else if n = 10 then [bslash, CHR ''n'']
      else if n = 13 then [bslash, CHR ''r'']
      else if n = 9 then [bslash, CHR ''t'']
      else if n = 8 then [bslash, CHR ''b'']
      else if n = 12 then [bslash, CHR ''f'']
      else if n < 32 \<or> 126 < n
      then [bslash, CHR ''u'', CHR ''0'', CHR ''0'', hex_lower (n div 16), hex_lower (n mod 16)]
      else [c])"

definition json_quote :: "string \<Rightarrow> string" where
  "json_quote s = dquote # concat (map json_escape_char s) @ [dquote]"

text \<open>\<open>int.__repr__\<close>.\<close>

fun nat_str :: "nat \<Rightarrow> string" where
  "nat_str n = (if n < 10 then [char_of (48 + n)] else nat_str (n div 10) @ [char_of (48 + n mod 10)])"

declare nat_str.simps [simp del]

definition int_str :: "int \<Rightarrow> string" where
  "int_str i = (if i < 0 then CHR ''-'' # nat_str (nat (- i)) else nat_str (nat i))"

text \<open>The items of a list or dict, joined by the separator \<open>","\<close>.\<close>

fun join_comma :: "string list \<Rightarrow> string" where
  "join_comma [] = []"
| "join_comma [x] = x"
| "join_comma (x # xs) = x @ CHR '','' # join_comma xs"

text \<open>
  \<open>json.dumps\<close>. A float is printed as its literal; Python prints \<open>repr(float(lit))\<close>,
  which is the same text when the literal is already in shortest form.
\<close>

fun json_dumps :: "json \<Rightarrow> string" where
  "json_dumps JNull = ''null''"
| "json_dumps (JBool b) = (if b then ''true'' else ''false'')"
| "json_dumps (JInt i) = int_str i"
| "json_dumps (JFloat lit) = lit"
| "json_dumps (JStr s) = json_quote s"
| "json_dumps (JList xs) = CHR ''['' # join_comma (map json_dumps xs) @ '']''"
| "json_dumps (JObj kvs) =
     CHR ''{'' # join_comma (map (\<lambda>(k, v). json_quote k @ CHR '':'' # json_dumps v) kvs) @ ''}''"

text \<open>
  Values without floats (the printer echoes a float's literal), and the nesting depth of
  arrays and objects, which is the recursion budget their parse needs.
\<close>

fun float_free :: "json \<Rightarrow> bool" where
  "float_free (JFloat _) = False"
| "float_free (JList xs) = list_all float_free xs"
| "float_free (JObj kvs) = list_all (\<lambda>kv. float_free (snd kv)) kvs"
| "float_free _ = True"

fun json_depth :: "json \<Rightarrow> nat" where
  "json_depth (JList xs) = Suc (foldr max (map json_depth xs) 0)"
| "json_depth (JObj kvs) = Suc (foldr max (map (\<lambda>kv. json_depth (snd kv)) kvs) 0)"
| "json_depth _ = 0"

section \<open>Scanning\<close>

text \<open>The whitespace that \<open>json\<close> skips between tokens: space, tab, newline, return.\<close>

definition json_ws :: "char \<Rightarrow> bool" where
  "json_ws c = (c = CHR '' '' \<or> c = CHR 0x09 \<or> c = CHR 0x0A \<or> c = CHR 0x0D)"

abbreviation skip_ws :: "string \<Rightarrow> string" where
  "skip_ws s \<equiv> dropWhile json_ws s"

definition is_digit :: "char \<Rightarrow> bool" where
  "is_digit c = (48 \<le> (of_char c :: nat) \<and> (of_char c :: nat) \<le> 57)"

definition hex_val :: "char \<Rightarrow> nat option" where
  "hex_val c =
     (let n = of_char c :: nat in
      if 48 \<le> n \<and> n \<le> 57 then Some (n - 48)
      else if 97 \<le> n \<and> n \<le> 102 then Some (n - 87)
      else if 65 \<le> n \<and> n \<le> 70 then Some (n - 55)
      else None)"

text \<open>The four hex digits of a \<open>\uXXXX\<close> escape.\<close>

fun hex4 :: "string \<Rightarrow> nat option" where
  "hex4 (a # b # c # d # _) =
     (case (hex_val a, hex_val b, hex_val c, hex_val d) of
        (Some x, Some y, Some z, Some w) \<Rightarrow> Some (((x * 16 + y) * 16 + z) * 16 + w)
      | _ \<Rightarrow> None)"
| "hex4 _ = None"

text \<open>The one-letter escapes after a backslash.\<close>

definition simple_escape :: "char \<Rightarrow> char option" where
  "simple_escape e =
     (if e = dquote then Some dquote
      else if e = bslash then Some bslash
      else if e = CHR ''/'' then Some (CHR ''/'')
      else if e = CHR ''b'' then Some (CHR 0x08)
      else if e = CHR ''f'' then Some (CHR 0x0C)
      else if e = CHR ''n'' then Some (CHR 0x0A)
      else if e = CHR ''r'' then Some (CHR 0x0D)
      else if e = CHR ''t'' then Some (CHR 0x09)
      else None)"

text \<open>
  \<open>scanstring_unicode\<close> with \<open>strict=True\<close>, after the opening quote: the characters up
  to the closing quote, with escapes resolved. A control character, a bad escape and a
  missing closing quote raise \<open>JSONDecodeError\<close>. A \<open>\uXXXX\<close> escape above 255 (alone or
  as half of a surrogate pair) denotes a character outside the model.
\<close>

fun scan_string :: "string \<Rightarrow> string \<Rightarrow> py_exc + (string \<times> string)" where
  "scan_string acc [] = Inl JSONDecodeError"
| "scan_string acc (c # cs) =
     (if c = dquote then Inr (rev acc, cs)
      else if c = bslash then
        (case cs of
           [] \<Rightarrow> Inl JSONDecodeError
         | e # cs' \<Rightarrow>
             if e = CHR ''u'' then
               (case hex4 cs' of
                  None \<Rightarrow> Inl JSONDecodeError
                | Some u \<Rightarrow>
                    if u < 256 then scan_string (char_of u # acc) (drop 4 cs')
                    else Inl (ValueError ''code point above 255''))
             else
               (case simple_escape e of
                  None \<Rightarrow> Inl JSONDecodeError
                | Some d \<Rightarrow> scan_string (d # acc) cs'))
      else if (of_char c :: nat) < 32 then Inl JSONDecodeError
      else scan_string (c # acc) cs)"

text \<open>
  \<open>_match_number_unicode\<close>: an optional minus, \<open>0\<close> or a digit string without a leading
  zero, then an optional fraction (a dot followed by at least one digit) and an
  optional exponent (\<open>e\<close> or \<open>E\<close>, an optional sign, at least one digit). A fraction or
  an exponent makes it a float. \<open>None\<close> is the scanner's \<open>StopIteration\<close>: no number here.
\<close>

definition scan_exponent :: "string \<Rightarrow> nat" where
  "scan_exponent r =
     (case r of
        e # r1 \<Rightarrow>
          if e = CHR ''e'' \<or> e = CHR ''E'' then
            (let sg = (if r1 \<noteq> [] \<and> (hd r1 = CHR ''+'' \<or> hd r1 = CHR ''-'') then 1 else 0);
                 ds = length (takeWhile is_digit (drop sg r1)) in
             if ds = 0 then 0 else 1 + sg + ds)
          else 0
      | [] \<Rightarrow> 0)"

definition scan_fraction :: "string \<Rightarrow> nat" where
  "scan_fraction r =
     (case r of
        d # r1 \<Rightarrow>
          if d = CHR ''.'' \<and> r1 \<noteq> [] \<and> is_digit (hd r1)
          then 1 + length (takeWhile is_digit r1) else 0
      | [] \<Rightarrow> 0)"

definition digits_val :: "string \<Rightarrow> nat" where
  "digits_val ds = foldl (\<lambda>a c. 10 * a + (of_char c - 48)) 0 ds"

definition scan_number :: "string \<Rightarrow> (json \<times> string) option" where
  "scan_number s =
     (let sg = (if s \<noteq> [] \<and> hd s = CHR ''-'' then 1 else 0);
          r = drop sg s in
      case r of
        [] \<Rightarrow> None
      | c # cs \<Rightarrow>
          if \<not> is_digit c then None
          else
            (let ilen = (if c = CHR ''0'' then 1 else 1 + length (takeWhile is_digit cs));
                 flen = scan_fraction (drop ilen r);
                 elen = scan_exponent (drop (ilen + flen) r);
                 len = sg + ilen + flen + elen in
             if flen = 0 \<and> elen = 0
             then Some (JInt ((if sg = 1 then -1 else 1) * int (digits_val (take ilen r))), drop len s)
             else Some (JFloat (take len s), drop len s)))"

text \<open>The keyword constants \<open>null\<close>, \<open>true\<close>, \<open>false\<close>, \<open>NaN\<close>, \<open>Infinity\<close>, \<open>-Infinity\<close>.\<close>

definition json_constants :: "(string \<times> json) list" where
  "json_constants =
     [(''null'', JNull), (''true'', JBool True), (''false'', JBool False), (''NaN'', JFloat ''NaN''),
      (''Infinity'', JFloat ''Infinity''), (''-Infinity'', JFloat ''-Infinity'')]"

definition scan_constant :: "string \<Rightarrow> (json \<times> string) option" where
  "scan_constant s =
     (case find (\<lambda>(w, v). take (length w) s = w) json_constants of
        None \<Rightarrow> None
      | Some (w, v) \<Rightarrow> Some (v, drop (length w) s))"

text \<open>
  The scanner proper. \<open>parse_value\<close> is \<open>scan_once_unicode\<close>, \<open>parse_elems\<close> the loop of
  \<open>_parse_array_unicode\<close> (items already read in \<open>acc\<close>, reversed), \<open>parse_members\<close>
  the loop of \<open>_parse_object_unicode\<close>. The first argument is fuel, the second the
  recursion budget. \<open>None\<close> is only the exhaustion of the fuel, which
  \<open>parse_value_fuel\<close> below shows never happens with the fuel \<open>json_loads_str\<close> gives.
\<close>

fun parse_value :: "nat \<Rightarrow> nat \<Rightarrow> string \<Rightarrow> (py_exc + (json \<times> string)) option"
and parse_elems :: "nat \<Rightarrow> nat \<Rightarrow> json list \<Rightarrow> string \<Rightarrow> (py_exc + (json \<times> string)) option"
and parse_members :: "nat \<Rightarrow> nat \<Rightarrow> (string \<times> json) list \<Rightarrow> string \<Rightarrow> (py_exc + (json \<times> string)) option"
where
  "parse_value 0 n s = None"
| "parse_value (Suc k) n s =
     (case s of
        [] \<Rightarrow> Some (Inl JSONDecodeError)
      | c # cs \<Rightarrow>
          if c = dquote then
            Some (case scan_string [] cs of Inl e \<Rightarrow> Inl e | Inr (str, r) \<Rightarrow> Inr (JStr str, r))
          else if c = CHR ''['' then
            (if n = 0 then Some (Inl RecursionError)
             else (case skip_ws cs of
                     d # r \<Rightarrow> if d = CHR '']'' then Some (Inr (JList [], r))
                              else parse_elems k (n - 1) [] (d # r)
                   | [] \<Rightarrow> Some (Inl JSONDecodeError)))
          else if c = CHR ''{'' then
            (if n = 0 then Some (Inl RecursionError)
             else (case skip_ws cs of
                     d # r \<Rightarrow> if d = CHR ''}'' then Some (Inr (JObj [], r))
                              else parse_members k (n - 1) [] (d # r)
                   | [] \<Rightarrow> Some (Inl JSONDecodeError)))
          else
            (case scan_constant s of
               Some (v, r) \<Rightarrow> Some (Inr (v, r))
             | None \<Rightarrow>
                 (case scan_number s of
                    Some (v, r) \<Rightarrow> Some (Inr (v, r))
                  | None \<Rightarrow> Some (Inl JSONDecodeError))))"
| "parse_elems 0 n acc s = None"
| "parse_elems (Suc k) n acc s =
     (case parse_value k n s of
        None \<Rightarrow> None
      | Some (Inl e) \<Rightarrow> Some (Inl e)
      | Some (Inr (v, r)) \<Rightarrow>
          (case skip_ws r of
             d # r' \<Rightarrow>
               if d = CHR '']'' then Some (Inr (JList (rev (v # acc)), r'))
               else if d = CHR '','' then parse_elems k n (v # acc) (skip_ws r')
               else Some (Inl JSONDecodeError)
           | [] \<Rightarrow> Some (Inl JSONDecodeError)))"
| "parse_members 0 n acc s = None"
| "parse_members (Suc k) n acc s =
     (case s of
        c # cs \<Rightarrow>
          if c \<noteq> dquote then Some (Inl JSONDecodeError)
          else
            (case scan_string [] cs of
               Inl e \<Rightarrow> Some (Inl e)
             | Inr (key, r) \<Rightarrow>
                 (case skip_ws r of
                    d # r2 \<Rightarrow>
                      if d \<noteq> CHR '':'' then Some (Inl JSONDecodeError)
                      else
                        (case parse_value k n (skip_ws r2) of
                           None \<Rightarrow> None
                         | Some (Inl e) \<Rightarrow> Some (Inl e)
                         | Some (Inr (v, r3)) \<Rightarrow>
                             (case skip_ws r3 of
                                d' # r4 \<Rightarrow>
                                  if d' = CHR ''}'' then Some (Inr (JObj (rev ((key, v) # acc)), r4))
                                  else if d' = CHR '','' then parse_members k n ((key, v) # acc) (skip_ws r4)
                                  else Some (Inl JSONDecodeError)
                              | [] \<Rightarrow> Some (Inl JSONDecodeError)))
                  | [] \<Rightarrow> Some (Inl JSONDecodeError)))
      | [] \<Rightarrow> Some (Inl JSONDecodeError))"

text \<open>
  \<open>json.loads\<close> on a string: leading whitespace, one value, trailing whitespace, and
  nothing else (\<open>Extra data\<close>).
\<close>

definition json_loads_str :: "nat \<Rightarrow> string \<Rightarrow> py_exc + json" where
  "json_loads_str n s =
     (case parse_value (2 * length s + 2) n (skip_ws s) of
        None \<Rightarrow> Inl JSONDecodeError
      | Some (Inl e) \<Rightarrow> Inl e
      | Some (Inr (v, r)) \<Rightarrow> if skip_ws r = [] then Inr v else Inl JSONDecodeError)"

text \<open>
  \<open>json.loads\<close> on bytes first decodes them with \<open>json.detect_encoding\<close>: a byte-order
  mark selects UTF-32, UTF-16 or UTF-8 with signature; otherwise the pattern of zero
  bytes among the first four (or two) selects UTF-16 or UTF-32 without a mark, and
  anything else is UTF-8.
\<close>

definition detect_encoding :: "string \<Rightarrow> string" where
  "detect_encoding b =
     (let z = (\<lambda>i. (of_char (b ! i) :: nat) = 0) in
      if take 4 b = [CHR 0xFF, CHR 0xFE, CHR 0x00, CHR 0x00] \<or> take 4 b = [CHR 0x00, CHR 0x00, CHR 0xFE, CHR 0xFF]
      then ''utf-32''
      else if take 2 b = [CHR 0xFF, CHR 0xFE] \<or> take 2 b = [CHR 0xFE, CHR 0xFF] then ''utf-16''
      else if take 3 b = [CHR 0xEF, CHR 0xBB, CHR 0xBF] then ''utf-8-sig''
      else if 4 \<le> length b then
        (if z 0 then (if \<not> z 1 then ''utf-16-be'' else ''utf-32-be'')
         else if z 1 then (if \<not> z 2 \<or> \<not> z 3 then ''utf-16-le'' else ''utf-32-le'')
         else ''utf-8'')
      else if length b = 2 then
        (if z 0 then ''utf-16-be'' else if z 1 then ''utf-16-le'' else ''utf-8'')
      else ''utf-8'')"

text \<open>
  The UTF-16 and UTF-32 codecs, little-endian when the flag is set. A unit with a
  non-zero high part is a code point above 255 (or half of a surrogate pair), outside
  the model; a trailing partial unit raises \<open>UnicodeDecodeError\<close>.
\<close>

fun utf16_decode :: "bool \<Rightarrow> string \<Rightarrow> py_exc + string" where
  "utf16_decode le [] = Inr []"
| "utf16_decode le [x] = Inl (ValueError ''truncated data'')"
| "utf16_decode le (x # y # r) =
     (let lo = (if le then x else y); hi = (if le then y else x) in
      if (of_char hi :: nat) = 0
      then (case utf16_decode le r of Inl e \<Rightarrow> Inl e | Inr s \<Rightarrow> Inr (lo # s))
      else Inl (ValueError ''code point above 255''))"

fun utf32_decode :: "bool \<Rightarrow> string \<Rightarrow> py_exc + string" where
  "utf32_decode le [] = Inr []"
| "utf32_decode le (x # y # z # w # r) =
     (let lo = (if le then x else w); hi = (if le then [y, z, w] else [x, y, z]) in
      if list_all (\<lambda>c. (of_char c :: nat) = 0) hi
      then (case utf32_decode le r of Inl e \<Rightarrow> Inl e | Inr s \<Rightarrow> Inr (lo # s))
      else Inl (ValueError ''code point above 255''))"
| "utf32_decode le _ = Inl (ValueError ''truncated data'')"

text \<open>\<open>b.decode(detect_encoding(b), 'surrogatepass')\<close>.\<close>

definition json_text_decode :: "string \<Rightarrow> py_exc + string" where
  "json_text_decode b =
     (let enc = detect_encoding b in
      if enc = ''utf-8'' then utf8_decode b
      else if enc = ''utf-8-sig'' then utf8_decode (drop 3 b)
      else if enc = ''utf-16'' then utf16_decode (take 2 b = [CHR 0xFF, CHR 0xFE]) (drop 2 b)
      else if enc = ''utf-16-le'' then utf16_decode True b
      else if enc = ''utf-16-be'' then utf16_decode False b
      else if enc = ''utf-32'' then utf32_decode (take 4 b = [CHR 0xFF, CHR 0xFE, CHR 0x00, CHR 0x00]) (drop 4 b)
      else if enc = ''utf-32-le'' then utf32_decode True b
      else utf32_decode False b)"

text \<open>\<open>json.loads\<close> on bytes. The decoding error \<open>UnicodeDecodeError\<close> is a \<open>ValueError\<close>.\<close>

definition json_loads :: "nat \<Rightarrow> string \<Rightarrow> py_exc + json" where
  "json_loads n b = (case json_text_decode b of Inl e \<Rightarrow> Inl e | Inr s \<Rightarrow> json_loads_str n s)"

section \<open>The scanner consumes input, and its fuel suffices\<close>

lemma scan_string_shorter:
  "scan_string acc s = Inr (x, r) \<Longrightarrow> length r < length s"
proof (induction acc s rule: scan_string.induct)
  case (1 acc)
  then show ?case by simp
next
  case (2 acc c cs)
  show ?case
  proof (cases "c = dquote")
    case True
    with "2.prems" show ?thesis by simp
  next
    case nq: False
    show ?thesis
    proof (cases "c = bslash")
      case bs: True
      show ?thesis
      proof (cases cs)
        case Nil
        with "2.prems" nq bs show ?thesis by simp
      next
        case (Cons e cs')
        show ?thesis
        proof (cases "e = CHR ''u''")
          case u: True
          then obtain w where h: "hex4 cs' = Some w" and w: "w < 256"
            and rec: "scan_string (char_of w # acc) (drop 4 cs') = Inr (x, r)"
            using "2.prems" nq bs Cons by (auto split: option.splits if_splits)
          have "length r < length (drop 4 cs')"
            using "2.IH"(1) [OF nq bs Cons u h w rec] .
          then show ?thesis using Cons by simp
        next
          case nu: False
          then obtain d where "simple_escape e = Some d" and rec: "scan_string (d # acc) cs' = Inr (x, r)"
            using "2.prems" nq bs Cons by (auto split: option.splits)
          then show ?thesis using "2.IH"(2) [OF nq bs Cons nu] Cons by fastforce
        qed
      qed
    next
      case nb: False
      then have ctl: "\<not> (of_char c :: nat) < 32" and "scan_string (c # acc) cs = Inr (x, r)"
        using "2.prems" nq by (auto split: if_splits)
      then show ?thesis using "2.IH"(3) [OF nq nb ctl] by simp
    qed
  qed
qed


lemma find_Some_mem: "find P xs = Some x \<Longrightarrow> x \<in> set xs \<and> P x"
  by (induction xs) (auto split: if_splits)

lemma scan_constant_shorter:
  assumes "scan_constant s = Some (v, r)"
  shows "length r < length s"
proof -
  obtain w where f: "find (\<lambda>(w, v). take (length w) s = w) json_constants = Some (w, v)"
    and r: "r = drop (length w) s"
    using assms by (auto simp: scan_constant_def split: option.splits)
  from f have "(w, v) \<in> set json_constants" and t: "take (length w) s = w"
    by (auto dest!: find_Some_mem)
  then have "w \<noteq> []" by (auto simp: json_constants_def)
  with t have "s \<noteq> []" by auto
  with \<open>w \<noteq> []\<close> show ?thesis using r by simp
qed

lemma scan_number_shorter:
  assumes "scan_number s = Some (v, r)"
  shows "length r < length s"
proof -
  define sg where "sg = (if s \<noteq> [] \<and> hd s = CHR ''-'' then 1 else 0 :: nat)"
  obtain c cs where r0: "drop sg s = c # cs"
    using assms by (cases "drop sg s") (auto simp: scan_number_def Let_def sg_def)
  then have ne: "s \<noteq> []" by auto
  have "\<exists>len. 0 < len \<and> r = drop len s"
    using assms r0 unfolding scan_number_def Let_def sg_def [symmetric]
    by (auto split: if_splits)
  then show ?thesis using ne by auto
qed

lemma dropWhile_shorter: "dropWhile P xs = ys \<Longrightarrow> length ys \<le> length xs"
  using length_dropWhile_le by metis

lemma parse_shorter:
  "parse_value k n s = Some (Inr (v, r)) \<Longrightarrow> length r < length s"
  "parse_elems k n acc s = Some (Inr (v, r)) \<Longrightarrow> length r < length s"
  "parse_members k n accm s = Some (Inr (v, r)) \<Longrightarrow> length r < length s"
proof (induction k n s and k n acc s and k n accm s arbitrary: v r and v r and v r
       rule: parse_value_parse_elems_parse_members.induct)
  case (2 k n s)
  show ?case
  proof (cases s)
    case Nil
    with "2.prems" show ?thesis by simp
  next
    case (Cons c cs)
    show ?thesis
    proof (cases "c = dquote")
      case True
      with "2.prems" Cons show ?thesis
        by (auto split: sum.splits dest!: scan_string_shorter)
    next
      case nq: False
      show ?thesis
      proof (cases "c = CHR ''[''")
        case lb: True
        from "2.prems" Cons nq lb have n0: "n \<noteq> 0" by (auto split: if_splits)
        from "2.prems" Cons nq lb n0 obtain d r' where sk: "skip_ws cs = d # r'"
          by (cases "skip_ws cs") auto
        have le: "length (d # r') \<le> length cs" using sk by (metis dropWhile_shorter)
        show ?thesis
        proof (cases "d = CHR '']''")
          case True
          with "2.prems" Cons nq lb n0 sk have "r = r'" by simp
          with le Cons show ?thesis by simp
        next
          case False
          with "2.prems" Cons nq lb n0 sk
          have "parse_elems k (n - 1) [] (d # r') = Some (Inr (v, r))" by simp
          from "2.IH"(1) [OF Cons nq lb n0 sk False this] le Cons show ?thesis by simp
        qed
      next
        case nb: False
        show ?thesis
        proof (cases "c = CHR ''{''")
          case lc: True
          from "2.prems" Cons nq nb lc have n0: "n \<noteq> 0" by (auto split: if_splits)
          from "2.prems" Cons nq nb lc n0 obtain d r' where sk: "skip_ws cs = d # r'"
            by (cases "skip_ws cs") auto
          have le: "length (d # r') \<le> length cs" using sk by (metis dropWhile_shorter)
          show ?thesis
          proof (cases "d = CHR ''}''")
            case True
            with "2.prems" Cons nq nb lc n0 sk have "r = r'" by simp
            with le Cons show ?thesis by simp
          next
            case False
            with "2.prems" Cons nq nb lc n0 sk
            have "parse_members k (n - 1) [] (d # r') = Some (Inr (v, r))" by simp
            from "2.IH"(2) [OF Cons nq nb lc n0 sk False this] le Cons show ?thesis by simp
          qed
        next
          case False
          with "2.prems" Cons nq nb show ?thesis
            by (auto split: option.splits dest!: scan_constant_shorter scan_number_shorter)
        qed
      qed
    qed
  qed
next
  case (4 k n acc s)
  from "4.prems" obtain v' r0 where pv: "parse_value k n s = Some (Inr (v', r0))"
    by (auto split: option.splits sum.splits)
  have r0: "length r0 < length s" using "4.IH"(1) [OF pv] .
  from "4.prems" pv obtain d r' where sk: "skip_ws r0 = d # r'"
    by (cases "skip_ws r0") auto
  have le: "length (d # r') \<le> length r0" using sk by (metis dropWhile_shorter)
  show ?case
  proof (cases "d = CHR '']''")
    case True
    with "4.prems" pv sk have "r = r'" by simp
    with le r0 show ?thesis by simp
  next
    case nb: False
    with "4.prems" pv sk have comma: "d = CHR '',''" by (auto split: if_splits)
    with "4.prems" pv sk nb have "parse_elems k n (v' # acc) (skip_ws r') = Some (Inr (v, r))" by simp
    then have "length r < length (skip_ws r')"
      by (rule "4.IH"(2) [OF pv refl refl sk nb comma])
    moreover have "length (skip_ws r') \<le> length r'" by (rule length_dropWhile_le)
    ultimately show ?thesis using le r0 by simp
  qed
next
  case (6 k n acc s)
  from "6.prems" obtain c cs where s: "s = c # cs" by (cases s) auto
  from "6.prems" s have q: "\<not> c \<noteq> dquote" by (auto split: if_splits)
  from "6.prems" s q obtain key r1 where ss: "scan_string [] cs = Inr (key, r1)"
    by (auto split: sum.splits)
  from "6.prems" s q ss obtain d r2 where sk: "skip_ws r1 = d # r2"
    by (cases "skip_ws r1") auto
  from "6.prems" s q ss sk have col: "\<not> d \<noteq> CHR '':''" by (auto split: if_splits)
  from "6.prems" s q ss sk col obtain v' r3 where pv: "parse_value k n (skip_ws r2) = Some (Inr (v', r3))"
    by (auto split: option.splits sum.splits)
  have l3: "length r3 < length (skip_ws r2)" by (rule "6.IH"(1) [OF s q ss refl sk col pv])
  have chain: "length (skip_ws r2) < length s"
    using scan_string_shorter [OF ss] dropWhile_shorter [OF sk] length_dropWhile_le [of json_ws r2] s
    by simp
  from "6.prems" s q ss sk col pv obtain d' r4 where sk3: "skip_ws r3 = d' # r4"
    by (cases "skip_ws r3") auto
  have l4: "length r4 < length r3" using dropWhile_shorter [OF sk3] by simp
  show ?case
  proof (cases "d' = CHR ''}''")
    case True
    with "6.prems" s q ss sk col pv sk3 have "r = r4" by simp
    with l4 l3 chain show ?thesis by simp
  next
    case nb: False
    with "6.prems" s q ss sk col pv sk3 have comma: "d' = CHR '',''" by (auto split: if_splits)
    with "6.prems" s q ss sk col pv sk3 nb
    have "parse_members k n ((key, v') # acc) (skip_ws r4) = Some (Inr (v, r))" by simp
    then have "length r < length (skip_ws r4)"
      by (rule "6.IH"(2) [OF s q ss refl sk col pv refl refl sk3 nb comma])
    then show ?thesis using length_dropWhile_le [of json_ws r4] l4 l3 chain by simp
  qed
qed simp_all

lemma parse_fuel:
  "2 * length s < k \<Longrightarrow> parse_value k n s \<noteq> None"
  "2 * length s + 1 < k \<Longrightarrow> parse_elems k n acc s \<noteq> None"
  "2 * length s + 1 < k \<Longrightarrow> parse_members k n accm s \<noteq> None"
  supply dropWhile_eq_Nil_conv [simp del]
proof (induction k n s and k n acc s and k n accm s
       rule: parse_value_parse_elems_parse_members.induct)
  case (2 k n s)
  show ?case
  proof (cases s)
    case Nil
    then show ?thesis by simp
  next
    case (Cons c cs)
    show ?thesis
    proof (cases "c = dquote")
      case True
      with Cons show ?thesis by (simp split: sum.split)
    next
      case nq: False
      show ?thesis
      proof (cases "c = CHR ''['' \<or> c = CHR ''{''")
        case br: True
        show ?thesis
        proof (cases "n = 0")
          case True
          with Cons nq br show ?thesis by auto
        next
          case n0: False
          show ?thesis
          proof (cases "skip_ws cs")
            case Nil
            with Cons nq br n0 show ?thesis by auto
          next
            case sk: (Cons d r')
            have "2 * length (d # r') + 1 < k"
              using dropWhile_shorter [OF sk] "2.prems" Cons by simp
            then show ?thesis
              using "2.IH"(1) [OF Cons nq _ n0 sk] "2.IH"(2) [OF Cons nq _ _ n0 sk] Cons nq br n0 sk
              by auto
          qed
        qed
      next
        case False
        with Cons nq show ?thesis by (auto split: option.split)
      qed
    qed
  qed
next
  case (4 k n acc s)
  have "parse_value k n s \<noteq> None" using "4.IH"(1) "4.prems" by simp
  then obtain res where pv: "parse_value k n s = Some res" by blast
  show ?case
  proof (cases res)
    case (Inl e)
    with pv show ?thesis by simp
  next
    case (Inr b)
    obtain v' r0 where b: "b = (v', r0)" by (cases b) auto
    have r0: "length r0 < length s" using parse_shorter(1) pv Inr b by simp
    show ?thesis
    proof (cases "skip_ws r0")
      case Nil
      with pv Inr b show ?thesis by simp
    next
      case (Cons d r')
      have le: "length (d # r') \<le> length r0" using dropWhile_shorter [OF Cons] .
      show ?thesis
      proof (cases "d = CHR '']'' \<or> d \<noteq> CHR '',''")
        case True
        with pv Inr b Cons show ?thesis by auto
      next
        case False
        then have nb: "d \<noteq> CHR '']''" and comma: "d = CHR '',''" by auto
        have "2 * length (skip_ws r') + 1 < k"
          using length_dropWhile_le [of json_ws r'] le r0 "4.prems" by simp
        then have "parse_elems k n (v' # acc) (skip_ws r') \<noteq> None"
          by (rule "4.IH"(2) [OF pv Inr b [symmetric] Cons nb comma])
        with pv Inr b Cons nb comma show ?thesis by simp
      qed
    qed
  qed
next
  case (6 k n acc s)
  show ?case
  proof (cases s)
    case Nil
    then show ?thesis by simp
  next
    case (Cons c cs)
    show ?thesis
    proof (cases "c \<noteq> dquote")
      case True
      with Cons show ?thesis by simp
    next
      case q: False
      show ?thesis
      proof (cases "scan_string [] cs")
        case (Inl e)
        with Cons q show ?thesis by simp
      next
        case (Inr b)
        obtain key r1 where b: "b = (key, r1)" by (cases b) auto
        have l1: "length r1 < length cs" using scan_string_shorter Inr b by simp
        show ?thesis
        proof (cases "skip_ws r1")
          case Nil
          with Cons q Inr b show ?thesis by simp
        next
          case sk: (Cons d r2)
          show ?thesis
          proof (cases "d \<noteq> CHR '':''")
            case True
            with Cons q Inr b sk show ?thesis by simp
          next
            case col: False
            have l2: "length (skip_ws r2) < length s"
              using dropWhile_shorter [OF sk] length_dropWhile_le [of json_ws r2] l1 Cons by simp
            have "parse_value k n (skip_ws r2) \<noteq> None"
              using "6.IH"(1) [OF Cons q Inr b [symmetric] sk col] l2 "6.prems" by simp
            then obtain res where pv: "parse_value k n (skip_ws r2) = Some res" by blast
            show ?thesis
            proof (cases res)
              case (Inl e)
              with Cons q Inr b sk col pv show ?thesis by simp
            next
              case (Inr b')
              obtain v' r3 where b': "b' = (v', r3)" by (cases b') auto
              have l3: "length r3 < length (skip_ws r2)" using parse_shorter(1) pv Inr b' by simp
              show ?thesis
              proof (cases "skip_ws r3")
                case Nil
                with Cons q \<open>scan_string [] cs = Inr b\<close> b sk col pv Inr b' show ?thesis by simp
              next
                case sk3: (Cons d' r4)
                have l4: "length (d' # r4) \<le> length r3" using dropWhile_shorter [OF sk3] .
                show ?thesis
                proof (cases "d' = CHR ''}'' \<or> d' \<noteq> CHR '',''")
                  case True
                  with Cons q \<open>scan_string [] cs = Inr b\<close> b sk col pv Inr b' sk3 show ?thesis by auto
                next
                  case False
                  then have nb: "d' \<noteq> CHR ''}''" and comma: "d' = CHR '',''" by auto
                  have "2 * length (skip_ws r4) + 1 < k"
                    using length_dropWhile_le [of json_ws r4] l4 l3 l2 "6.prems" by simp
                  then have "parse_members k n ((key, v') # acc) (skip_ws r4) \<noteq> None"
                    by (rule "6.IH"(2) [OF Cons q \<open>scan_string [] cs = Inr b\<close> b [symmetric] sk col pv Inr
                          b' [symmetric] sk3 nb comma])
                  with Cons q \<open>scan_string [] cs = Inr b\<close> b sk col pv Inr b' sk3 nb comma show ?thesis
                    by simp
                qed
              qed
            qed
          qed
        qed
      qed
    qed
  qed
qed simp_all


section \<open>Text decoding of ASCII\<close>

lemma ascii_take_not:
  assumes "ascii_text s" "take n s = cs" "c \<in> set cs" "128 \<le> (of_char c :: nat) \<or> (of_char c :: nat) = 0"
  shows False
proof -
  have "c \<in> set s" using assms(2,3) in_set_takeD by fastforce
  then show False using assms(1,4) by (auto simp: ascii_text_def list_all_iff)
qed

lemma detect_encoding_ascii: "ascii_text s \<Longrightarrow> detect_encoding s = ''utf-8''"
proof -
  assume a: "ascii_text s"
  have nz: "(of_char (s ! i) :: nat) \<noteq> 0" if "i < length s" for i
    using a that by (auto simp: ascii_text_def list_all_length)
  have t4: "take 4 s \<noteq> [CHR 0xFF, CHR 0xFE, CHR 0x00, CHR 0x00] \<and> take 4 s \<noteq> [CHR 0x00, CHR 0x00, CHR 0xFE, CHR 0xFF]"
    using ascii_take_not [OF a, of 4 _ "CHR 0xFF"] by auto
  have t2: "take 2 s \<noteq> [CHR 0xFF, CHR 0xFE] \<and> take 2 s \<noteq> [CHR 0xFE, CHR 0xFF]"
    using ascii_take_not [OF a, of 2 _ "CHR 0xFE"] by auto
  have t3: "take 3 s \<noteq> [CHR 0xEF, CHR 0xBB, CHR 0xBF]"
    using ascii_take_not [OF a, of 3 _ "CHR 0xEF"] by auto
  show ?thesis
  proof (cases "length s < 2")
    case True
    then show ?thesis using t4 t2 t3 by (simp add: detect_encoding_def Let_def)
  next
    case False
    moreover have "s \<noteq> []" using False by auto
    ultimately show ?thesis using t4 t2 t3 nz [of 0] nz [of 1] by (simp add: detect_encoding_def Let_def)
  qed
qed

lemma json_text_decode_ascii: "ascii_text s \<Longrightarrow> json_text_decode s = Inr s"
  by (simp add: json_text_decode_def detect_encoding_ascii utf8_decode_ascii)

end
