(* ===== verification/Json_Roundtrip.thy ===== *)
theory Json_Roundtrip
  imports JsonText
begin

text \<open>
  The JSON text that \<open>json.dumps\<close> writes is read back by \<open>json.loads\<close> as the same
  value, for every value without floats whose nesting fits the recursion budget. The
  proof follows the scanner: string escapes (\<open>scan_string_quoted\<close>), integer literals
  (\<open>scan_number_int_str\<close>), the items of arrays and the members of objects
  (\<open>parse_elems_dumps\<close>, \<open>parse_members_dumps\<close>), and the value by structural induction
  (\<open>parse_dumps\<close>).
\<close>

section \<open>Delimiters and members\<close>

text \<open>What may follow a value in a text that \<open>json.dumps\<close> wrote, and the text of a member.\<close>

definition delim :: "string \<Rightarrow> bool" where
  "delim rest \<longleftrightarrow> rest = [] \<or> hd rest = CHR '','' \<or> hd rest = CHR '']'' \<or> hd rest = CHR ''}''"

definition member_str :: "string \<times> json \<Rightarrow> string" where
  "member_str kv = json_quote (fst kv) @ CHR '':'' # json_dumps (snd kv)"

section \<open>Strings and numbers\<close>

lemma hex_val_hex_lower [simp]: "d < 16 \<Longrightarrow> hex_val (hex_lower d) = Some d"
proof -
  assume d: "d < 16"
  show ?thesis
  proof (cases "d < 10")
    case True
    then show ?thesis by (simp add: hex_lower_def hex_val_def Let_def)
  next
    case False
    with d show ?thesis by (simp add: hex_lower_def hex_val_def Let_def)
  qed
qed

lemma hex4_u00:
  assumes "n < 256"
  shows "hex4 (CHR ''0'' # CHR ''0'' # hex_lower (n div 16) # hex_lower (n mod 16) # t) = Some n"
proof -
  have "n div 16 < 16" using assms by simp
  moreover have "n mod 16 < 16" by simp
  moreover have "hex_val (CHR ''0'') = Some 0" by (simp add: hex_val_def)
  ultimately show ?thesis by simp
qed

lemma scan_string_two_char:
  "json_escape_char c = [bslash, e] \<Longrightarrow> e \<noteq> CHR ''u'' \<Longrightarrow> simple_escape e = Some c \<Longrightarrow>
   scan_string acc (json_escape_char c @ t) = scan_string (c # acc) t"
  by simp

lemma control_escapes:
  "json_escape_char (CHR 0x0A) = [bslash, CHR ''n'']" "simple_escape (CHR ''n'') = Some (CHR 0x0A)"
  "json_escape_char (CHR 0x0D) = [bslash, CHR ''r'']" "simple_escape (CHR ''r'') = Some (CHR 0x0D)"
  "json_escape_char (CHR 0x09) = [bslash, CHR ''t'']" "simple_escape (CHR ''t'') = Some (CHR 0x09)"
  "json_escape_char (CHR 0x08) = [bslash, CHR ''b'']" "simple_escape (CHR ''b'') = Some (CHR 0x08)"
  "json_escape_char (CHR 0x0C) = [bslash, CHR ''f'']" "simple_escape (CHR ''f'') = Some (CHR 0x0C)"
  by (simp_all add: json_escape_char_def simple_escape_def)

lemma char_by_code: "(of_char c :: nat) = of_char d \<Longrightarrow> c = d"
  by (simp add: of_char_eq_iff)

lemma control_chars:
  "(of_char c :: nat) = 10 \<Longrightarrow> c = CHR 0x0A" "(of_char c :: nat) = 13 \<Longrightarrow> c = CHR 0x0D"
  "(of_char c :: nat) = 9 \<Longrightarrow> c = CHR 0x09" "(of_char c :: nat) = 8 \<Longrightarrow> c = CHR 0x08"
  "(of_char c :: nat) = 12 \<Longrightarrow> c = CHR 0x0C"
  by (rule char_by_code; simp)+

lemma scan_string_escape_char:
  "scan_string acc (json_escape_char c @ t) = scan_string (c # acc) t"
proof -
  define n where "n = (of_char c :: nat)"
  have n256: "n < 256" by (simp add: n_def)
  have cn: "c = char_of n" by (simp add: n_def)
  have eq: "json_escape_char dquote = [bslash, dquote]" by (simp add: json_escape_char_def)
  have eb: "json_escape_char bslash = [bslash, bslash]" by (simp add: json_escape_char_def)
  have sq: "simple_escape dquote = Some dquote" and sb: "simple_escape bslash = Some bslash"
    by (simp_all add: simple_escape_def)
  show ?thesis
  proof (cases "c = dquote \<or> c = bslash")
    case True
    then show ?thesis
    proof
      assume "c = dquote" then show ?thesis using eq sq by simp
    next
      assume "c = bslash" then show ?thesis using eb sb by simp
    qed
  next
    case q: False
    show ?thesis
    proof (cases "n = 10 \<or> n = 13 \<or> n = 9 \<or> n = 8 \<or> n = 12")
      case True
      then have "c = CHR 0x0A \<or> c = CHR 0x0D \<or> c = CHR 0x09 \<or> c = CHR 0x08 \<or> c = CHR 0x0C"
        using control_chars [of c] by (auto simp: n_def)
      then show ?thesis
        using scan_string_two_char [OF control_escapes(1) _ control_escapes(2)]
          scan_string_two_char [OF control_escapes(3) _ control_escapes(4)]
          scan_string_two_char [OF control_escapes(5) _ control_escapes(6)]
          scan_string_two_char [OF control_escapes(7) _ control_escapes(8)]
          scan_string_two_char [OF control_escapes(9) _ control_escapes(10)]
        by auto
    next
      case ctl: False
      show ?thesis
      proof (cases "n < 32 \<or> 126 < n")
        case True
        have "json_escape_char c = [bslash, CHR ''u'', CHR ''0'', CHR ''0'', hex_lower (n div 16), hex_lower (n mod 16)]"
          using q ctl True by (simp add: json_escape_char_def n_def Let_def)
        then show ?thesis using hex4_u00 [OF n256] n256 cn by simp
      next
        case False
        then have "json_escape_char c = [c]"
          using q ctl by (simp add: json_escape_char_def n_def Let_def)
        then show ?thesis using q False by (simp add: n_def)
      qed
    qed
  qed
qed

lemma scan_string_quoted:
  "scan_string acc (concat (map json_escape_char s) @ dquote # rest) = Inr (rev acc @ s, rest)"
  by (induction s arbitrary: acc) (simp_all add: scan_string_escape_char)

lemma of_char_digit [simp]: "d < 10 \<Longrightarrow> (of_char (char_of (48 + d)) :: nat) = 48 + d"
  by simp

lemma nat_str_small: "n < 10 \<Longrightarrow> nat_str n = [char_of (48 + n)]"
  by (subst nat_str.simps) simp

lemma nat_str_big: "\<not> n < 10 \<Longrightarrow> nat_str n = nat_str (n div 10) @ [char_of (48 + n mod 10)]"
  by (subst nat_str.simps) simp

lemma nat_str_props:
  "nat_str m \<noteq> [] \<and> list_all is_digit (nat_str m) \<and> digits_val (nat_str m) = m \<and>
   (0 < m \<longrightarrow> hd (nat_str m) \<noteq> CHR ''0'') \<and> (m = 0 \<longrightarrow> nat_str m = ''0'')"
proof (induction m rule: nat_str.induct)
  case (1 n)
  show ?case
  proof (cases "n < 10")
    case True
    have d: "is_digit (char_of (48 + n))" using True by (simp add: is_digit_def)
    have nz: "char_of (48 + n) \<noteq> CHR ''0''" if "0 < n"
    proof
      assume "char_of (48 + n) = CHR ''0''"
      then have "(of_char (char_of (48 + n)) :: nat) = of_char (CHR ''0'')" by simp
      with True that show False by simp
    qed
    have z: "n = 0 \<Longrightarrow> char_of (48 + n) = CHR ''0''" by (rule char_by_code) simp
    have v: "digits_val [char_of (48 + n)] = n" using True by (simp add: digits_val_def)
    have ns: "nat_str n = [char_of (48 + n)]" by (rule nat_str_small [OF True])
    show ?thesis unfolding ns using d nz z v by auto
  next
    case False
    then have IH: "nat_str (n div 10) \<noteq> [] \<and> list_all is_digit (nat_str (n div 10)) \<and>
        digits_val (nat_str (n div 10)) = n div 10 \<and> (0 < n div 10 \<longrightarrow> hd (nat_str (n div 10)) \<noteq> CHR ''0'')"
      using "1.IH" by blast
    have pos: "0 < n div 10" using False by simp
    have d: "is_digit (char_of (48 + n mod 10))" by (simp add: is_digit_def)
    have "digits_val (nat_str (n div 10) @ [char_of (48 + n mod 10)]) = 10 * (n div 10) + n mod 10"
      using IH by (simp add: digits_val_def)
    also have "\<dots> = n" by simp
    finally have v: "digits_val (nat_str (n div 10) @ [char_of (48 + n mod 10)]) = n" .
    have ns: "nat_str n = nat_str (n div 10) @ [char_of (48 + n mod 10)]" by (rule nat_str_big [OF False])
    show ?thesis unfolding ns using IH pos False d v by simp
  qed
qed

lemma takeWhile_digits:
  "list_all is_digit xs \<Longrightarrow> (rest = [] \<or> \<not> is_digit (hd rest)) \<Longrightarrow> takeWhile is_digit (xs @ rest) = xs"
  by (induction xs) (auto simp: takeWhile_eq_Nil_iff)

lemma delim_not_digit: "delim rest \<Longrightarrow> rest = [] \<or> \<not> is_digit (hd rest)"
  by (auto simp: delim_def is_digit_def)

lemma delim_no_fraction: "delim rest \<Longrightarrow> scan_fraction rest = 0"
  by (cases rest) (auto simp: delim_def scan_fraction_def)

lemma delim_no_exponent: "delim rest \<Longrightarrow> scan_exponent rest = 0"
  by (cases rest) (auto simp: delim_def scan_exponent_def)

lemma digit_not_minus: "is_digit c \<Longrightarrow> c \<noteq> CHR ''-''"
  by (auto simp: is_digit_def)

lemma digits_len:
  assumes "delim rest"
  shows "(if hd (nat_str m) = CHR ''0'' then 1
          else 1 + length (takeWhile is_digit (tl (nat_str m) @ rest))) = length (nat_str m)"
proof -
  obtain c cs where ds: "nat_str m = c # cs" using nat_str_props [of m] by (cases "nat_str m") auto
  have all: "list_all is_digit cs" using nat_str_props [of m] ds by simp
  show ?thesis
  proof (cases "c = CHR ''0''")
    case True
    then have "m = 0" using nat_str_props [of m] ds by auto
    then show ?thesis using nat_str_props [of m] ds True by simp
  next
    case False
    then show ?thesis using ds takeWhile_digits [OF all delim_not_digit [OF assms]] by simp
  qed
qed

lemma scan_number_digits:
  assumes "delim rest" and "sg \<le> 1" and "drop sg s = nat_str m @ rest"
    and "sg = (if s \<noteq> [] \<and> hd s = CHR ''-'' then 1 else 0)"
  shows "scan_number s = Some (JInt ((if sg = 1 then -1 else 1) * int m), rest)"
proof -
  obtain c cs where ds: "nat_str m = c # cs" using nat_str_props [of m] by (cases "nat_str m") auto
  have dc: "is_digit c" using nat_str_props [of m] ds by simp
  have len: "(if c = CHR ''0'' then 1 else 1 + length (takeWhile is_digit (cs @ rest))) = length (nat_str m)"
    using digits_len [OF assms(1), of m] by (simp only: ds list.sel)
  have dr: "drop (length (nat_str m)) (nat_str m @ rest) = rest" by simp
  have tk: "take (length (nat_str m)) (nat_str m @ rest) = nat_str m" by simp
  have dsg: "drop (sg + length (nat_str m)) s = rest"
    using assms(3) by (metis add.commute drop_drop dr)
  show ?thesis
    unfolding scan_number_def Let_def assms(4) [symmetric]
    using assms(3) ds dc len dr tk dsg nat_str_props [of m]
      delim_no_fraction [OF assms(1)] delim_no_exponent [OF assms(1)]
    by simp
qed

lemma scan_number_int_str:
  assumes "delim rest"
  shows "scan_number (int_str i @ rest) = Some (JInt i, rest)"
proof (cases "i < 0")
  case True
  have "scan_number (int_str i @ rest) = Some (JInt ((if (1::nat) = 1 then -1 else 1) * int (nat (- i))), rest)"
    by (rule scan_number_digits [OF assms]) (simp_all add: int_str_def True)
  then show ?thesis using True by simp
next
  case False
  obtain c cs where ds: "nat_str (nat i) = c # cs" using nat_str_props [of "nat i"] by (cases "nat_str (nat i)") auto
  have "c \<noteq> CHR ''-''" using nat_str_props [of "nat i"] ds digit_not_minus by simp
  then have "scan_number (int_str i @ rest) = Some (JInt ((if (0::nat) = 1 then -1 else 1) * int (nat i)), rest)"
    using False ds by (intro scan_number_digits [OF assms]) (simp_all add: int_str_def)
  then show ?thesis using False by simp
qed

section \<open>Values\<close>

lemma json_dumps_start:
  "float_free j \<Longrightarrow> \<exists>c cs. json_dumps j = c # cs \<and> \<not> json_ws c \<and> c \<noteq> CHR '']'' \<and> c \<noteq> CHR ''}''"
proof (cases j)
  case (JInt i)
  obtain c cs where "nat_str (nat (if i < 0 then - i else i)) = c # cs"
    using nat_str_props [of "nat (if i < 0 then - i else i)"] by (cases "nat_str (nat (if i < 0 then - i else i))") auto
  moreover have "is_digit c" if "nat_str (nat (if i < 0 then - i else i)) = c # cs"
    using nat_str_props [of "nat (if i < 0 then - i else i)"] that by simp
  ultimately show ?thesis using JInt
    by (auto simp: int_str_def json_ws_def is_digit_def)
qed (auto simp: json_ws_def json_quote_def)

lemma skip_ws_dumps:
  "float_free j \<Longrightarrow> skip_ws (json_dumps j @ t) = json_dumps j @ t"
  using json_dumps_start [of j] by (auto)

lemma delim_simps [simp]:
  "delim []" "delim (CHR '','' # t)" "delim (CHR '']'' # t)" "delim (CHR ''}'' # t)"
  by (simp_all add: delim_def)

lemma scan_constant_int_str: "scan_constant (int_str i @ rest) = None"
proof -
  obtain c cs where ds: "nat_str (nat (if i < 0 then - i else i)) = c # cs"
    using nat_str_props [of "nat (if i < 0 then - i else i)"] by (cases "nat_str (nat (if i < 0 then - i else i))") auto
  have "is_digit c" using nat_str_props [of "nat (if i < 0 then - i else i)"] ds by simp
  then have "(of_char c :: nat) \<noteq> of_char (CHR ''n'') \<and> (of_char c :: nat) \<noteq> of_char (CHR ''t'') \<and>
      (of_char c :: nat) \<noteq> of_char (CHR ''f'') \<and> (of_char c :: nat) \<noteq> of_char (CHR ''N'') \<and>
      (of_char c :: nat) \<noteq> of_char (CHR ''I'') \<and> (of_char c :: nat) \<noteq> of_char (CHR ''-'')"
    by (simp add: is_digit_def)
  then have "c \<noteq> CHR ''n'' \<and> c \<noteq> CHR ''t'' \<and> c \<noteq> CHR ''f'' \<and> c \<noteq> CHR ''N'' \<and> c \<noteq> CHR ''I'' \<and> c \<noteq> CHR ''-''"
    by auto
  then show ?thesis using ds
    by (cases "i < 0") (simp_all add: scan_constant_def json_constants_def int_str_def)
qed

lemma fold_max_le: "foldr max (map f xs) (0::nat) \<le> n \<longleftrightarrow> (\<forall>x \<in> set xs. f x \<le> n)"
  by (induction xs) auto

lemma join_comma_Cons2: "join_comma (x # y # ys) = x @ CHR '','' # join_comma (y # ys)"
  by simp

lemma parse_elems_dumps:
  assumes IH: "\<And>x n rest k. x \<in> set xs \<Longrightarrow> json_depth x \<le> n \<Longrightarrow> delim rest \<Longrightarrow>
                 2 * length (json_dumps x @ rest) < k \<Longrightarrow> parse_value k n (json_dumps x @ rest) = Some (Inr (x, rest))"
    and "xs \<noteq> []" and "list_all float_free xs" and "\<forall>x \<in> set xs. json_depth x \<le> n"
    and "2 * length (join_comma (map json_dumps xs) @ CHR '']'' # rest) + 1 < k"
  shows "parse_elems k n acc (join_comma (map json_dumps xs) @ CHR '']'' # rest) =
           Some (Inr (JList (rev acc @ xs), rest))"
  using assms
proof (induction xs arbitrary: acc k)
  case Nil
  then show ?case by simp
next
  case (Cons x xs)
  obtain k' where k: "k = Suc k'" using Cons.prems(5) by (cases k) auto
  show ?case
  proof (cases xs)
    case Nil
    have "parse_value k' n (json_dumps x @ CHR '']'' # rest) = Some (Inr (x, CHR '']'' # rest))"
      using Cons.prems(1) [of x] Cons.prems(4,5) Nil k by simp
    then show ?thesis using Nil k by (simp add: json_ws_def)
  next
    case (Cons y ys)
    let ?R = "join_comma (map json_dumps (y # ys)) @ CHR '']'' # rest"
    have s: "join_comma (map json_dumps (x # xs)) @ CHR '']'' # rest = json_dumps x @ CHR '','' # ?R"
      using Cons by simp
    have pv: "parse_value k' n (json_dumps x @ CHR '','' # ?R) = Some (Inr (x, CHR '','' # ?R))"
      using Cons.prems(1) [of x "n" "CHR '','' # ?R" k'] "Cons.prems"(4,5) s k by simp
    have ff: "float_free y" using "Cons.prems"(3) Cons by simp
    have sk: "skip_ws ?R = ?R"
      using skip_ws_dumps [OF ff, of "CHR '','' # join_comma (map json_dumps ys) @ CHR '']'' # rest"]
        skip_ws_dumps [OF ff, of "CHR '']'' # rest"]
      by (cases ys) simp_all
    have ne: "json_dumps x \<noteq> []" using json_dumps_start [of x] "Cons.prems"(3) by auto
    have "1 \<le> length (json_dumps x)" using ne by (cases "json_dumps x") auto
    then have fuel: "2 * length ?R + 1 < k'" using "Cons.prems"(5) k unfolding s by simp
    have rec: "parse_elems k' n (x # acc) ?R = Some (Inr (JList (rev (x # acc) @ xs), rest))"
      using "Cons.IH" [where acc = "x # acc" and k = k'] "Cons.prems"(1,3,4) Cons fuel by simp
    show ?thesis
      unfolding s k using pv sk rec Cons by (simp add: json_ws_def)
  qed
qed

lemma json_dumps_JObj: "json_dumps (JObj kvs) = CHR ''{'' # join_comma (map member_str kvs) @ ''}''"
proof -
  have "(\<lambda>(k, v). json_quote k @ CHR '':'' # json_dumps v) = member_str"
    by (auto simp: member_str_def)
  then show ?thesis by simp
qed

lemma member_str_start: "\<exists>cs. member_str kv = dquote # cs"
  by (simp add: member_str_def json_quote_def)

lemma parse_members_dumps:
  assumes IH: "\<And>kv n rest k. kv \<in> set kvs \<Longrightarrow> json_depth (snd kv) \<le> n \<Longrightarrow> delim rest \<Longrightarrow>
                 2 * length (json_dumps (snd kv) @ rest) < k \<Longrightarrow>
                 parse_value k n (json_dumps (snd kv) @ rest) = Some (Inr (snd kv, rest))"
    and "kvs \<noteq> []" and "list_all (\<lambda>kv. float_free (snd kv)) kvs" and "\<forall>kv \<in> set kvs. json_depth (snd kv) \<le> n"
    and "2 * length (join_comma (map member_str kvs) @ CHR ''}'' # rest) + 1 < k"
  shows "parse_members k n acc (join_comma (map member_str kvs) @ CHR ''}'' # rest) =
           Some (Inr (JObj (rev acc @ kvs), rest))"
  using assms
proof (induction kvs arbitrary: acc k)
  case Nil
  then show ?case by simp
next
  case (Cons kv kvs)
  obtain key v where kv: "kv = (key, v)" by (cases kv) auto
  obtain k' where k: "k = Suc k'" using Cons.prems(5) by (cases k) auto
  have ffv: "float_free v" using "Cons.prems"(3) kv by simp
  have dv: "json_depth v \<le> n" using "Cons.prems"(4) kv by simp
  let ?T = "(if kvs = [] then [] else CHR '','' # join_comma (map member_str kvs)) @ CHR ''}'' # rest"
  have s: "join_comma (map member_str (kv # kvs)) @ CHR ''}'' # rest =
           dquote # concat (map json_escape_char key) @ dquote # CHR '':'' # json_dumps v @ ?T"
    using kv by (cases kvs) (simp_all add: member_str_def json_quote_def)
  have ss: "scan_string [] (concat (map json_escape_char key) @ dquote # CHR '':'' # json_dumps v @ ?T) =
            Inr (key, CHR '':'' # json_dumps v @ ?T)"
    using scan_string_quoted [of "[]" key] by simp
  have dT: "delim ?T" by (cases kvs) simp_all
  have lenT: "2 * length (json_dumps v @ ?T) < k'" using "Cons.prems"(5) s k by simp
  have pv: "parse_value k' n (json_dumps v @ ?T) = Some (Inr (v, ?T))"
    using "Cons.prems"(1) [of kv n ?T k'] kv dv dT lenT by simp
  have colon: "\<not> json_ws (CHR '':'')" by (simp add: json_ws_def)
  show ?case
  proof (cases kvs)
    case Nil
    then show ?thesis
      unfolding s k using ss pv colon skip_ws_dumps [OF ffv] kv by (simp add: json_ws_def)
  next
    case (Cons kv2 kvs2)
    let ?R = "join_comma (map member_str kvs) @ CHR ''}'' # rest"
    obtain cs where m2: "member_str kv2 = dquote # cs" using member_str_start by blast
    have skR: "skip_ws ?R = ?R" using Cons m2 by (cases kvs2) (simp_all add: json_ws_def)
    have "1 \<le> length (json_dumps v)" using json_dumps_start [OF ffv] by auto
    then have fuel: "2 * length ?R + 1 < k'" using "Cons.prems"(5) k s Cons by simp
    have rec: "parse_members k' n ((key, v) # acc) ?R = Some (Inr (JObj (rev ((key, v) # acc) @ kvs), rest))"
      using "Cons.IH" [where acc = "(key, v) # acc" and k = k'] "Cons.prems"(1,3,4) Cons fuel by simp
    show ?thesis
      unfolding s k using ss pv colon skip_ws_dumps [OF ffv] kv Cons skR rec by (simp add: json_ws_def)
  qed
qed

lemma join_comma_start:
  "xs \<noteq> [] \<Longrightarrow> \<exists>cs. join_comma xs @ t = hd xs @ cs"
  by (cases xs rule: join_comma.cases) auto

lemma parse_constant_word:
  assumes "scan_constant (c # cs) = Some (v, rest)" "c \<noteq> dquote" "c \<noteq> CHR ''[''" "c \<noteq> CHR ''{''"
    and "0 < k"
  shows "parse_value k n (c # cs) = Some (Inr (v, rest))"
proof -
  obtain k' where k: "k = Suc k'" using assms(5) by (cases k) auto
  show ?thesis using assms(1-4) unfolding k by simp
qed

lemma scan_constant_words:
  "scan_constant (''null'' @ rest) = Some (JNull, rest)"
  "scan_constant (''true'' @ rest) = Some (JBool True, rest)"
  "scan_constant (''false'' @ rest) = Some (JBool False, rest)"
  by (simp_all add: scan_constant_def json_constants_def)

lemma int_str_start: "\<exists>c cs. int_str i = c # cs \<and> (c = CHR ''-'' \<or> is_digit c)"
proof -
  obtain c cs where ds: "nat_str (nat (if i < 0 then - i else i)) = c # cs"
    using nat_str_props [of "nat (if i < 0 then - i else i)"] by (cases "nat_str (nat (if i < 0 then - i else i))") auto
  have "is_digit c" using nat_str_props [of "nat (if i < 0 then - i else i)"] ds by simp
  then show ?thesis using ds by (cases "i < 0") (auto simp: int_str_def)
qed

lemma parse_dumps:
  "float_free j \<Longrightarrow> json_depth j \<le> n \<Longrightarrow> delim rest \<Longrightarrow> 2 * length (json_dumps j @ rest) < k \<Longrightarrow>
     parse_value k n (json_dumps j @ rest) = Some (Inr (j, rest))"
proof (induction j arbitrary: n rest k)
  case JNull
  then show ?case using parse_constant_word scan_constant_words(1) by simp
next
  case (JBool b)
  then show ?case using parse_constant_word scan_constant_words(2,3) by (cases b) simp_all
next
  case (JInt i)
  obtain k' where k: "k = Suc k'" using JInt.prems(4) by (cases k) auto
  obtain c cs where c: "int_str i = c # cs" and d: "c = CHR ''-'' \<or> is_digit c"
    using int_str_start by blast
  have "c \<noteq> dquote \<and> c \<noteq> CHR ''['' \<and> c \<noteq> CHR ''{''"
    using d by (auto simp: is_digit_def)
  then show ?case
    using c scan_constant_int_str [of i rest] scan_number_int_str [OF JInt.prems(3), of i]
    unfolding k by simp
next
  case (JFloat lit)
  then show ?case by simp
next
  case (JStr s)
  obtain k' where k: "k = Suc k'" using JStr.prems(4) by (cases k) auto
  show ?case using scan_string_quoted [of "[]" s rest]
    unfolding k by (simp add: json_quote_def)
next
  case (JList xs)
  obtain k' where k: "k = Suc k'" using JList.prems(4) by (cases k) auto
  obtain m where n: "n = Suc m" using JList.prems(2) by (cases n) auto
  have dm: "\<forall>x \<in> set xs. json_depth x \<le> m" using JList.prems(2) n fold_max_le [of json_depth xs m] by simp
  have ff: "list_all float_free xs" using JList.prems(1) by simp
  show ?case
  proof (cases xs)
    case Nil
    then show ?thesis unfolding k n by (simp add: json_ws_def)
  next
    case (Cons x xs')
    let ?S = "join_comma (map json_dumps xs) @ CHR '']'' # rest"
    obtain c cs where c: "json_dumps x = c # cs" and nc: "\<not> json_ws c \<and> c \<noteq> CHR '']'' \<and> c \<noteq> CHR ''}''"
      using json_dumps_start [of x] ff Cons by auto
    obtain cs' where S: "?S = c # cs'" using join_comma_start [of "map json_dumps xs" "CHR '']'' # rest"] Cons c by auto
    have IH: "\<And>y n rest k. y \<in> set xs \<Longrightarrow> json_depth y \<le> n \<Longrightarrow> delim rest \<Longrightarrow>
                2 * length (json_dumps y @ rest) < k \<Longrightarrow> parse_value k n (json_dumps y @ rest) = Some (Inr (y, rest))"
      using JList.IH ff by (simp add: list_all_iff)
    have "parse_elems k' m [] ?S = Some (Inr (JList (rev [] @ xs), rest))"
      by (rule parse_elems_dumps [OF IH]) (use Cons ff dm JList.prems(4) k in simp_all)
    then show ?thesis using S nc unfolding k n by simp
  qed
next
  case (JObj kvs)
  obtain k' where k: "k = Suc k'" using JObj.prems(4) by (cases k) auto
  obtain m where n: "n = Suc m" using JObj.prems(2) by (cases n) auto
  have dm: "\<forall>kv \<in> set kvs. json_depth (snd kv) \<le> m"
    using JObj.prems(2) n fold_max_le [of "\<lambda>kv. json_depth (snd kv)" kvs m] by simp
  have ff: "list_all (\<lambda>kv. float_free (snd kv)) kvs" using JObj.prems(1) by simp
  show ?case
  proof (cases kvs)
    case Nil
    then show ?thesis unfolding k n by (simp add: json_ws_def)
  next
    case (Cons kv kvs')
    let ?S = "join_comma (map member_str kvs) @ CHR ''}'' # rest"
    obtain cs where c: "member_str kv = dquote # cs" using member_str_start by blast
    obtain cs' where S: "?S = dquote # cs'" using join_comma_start [of "map member_str kvs" "CHR ''}'' # rest"] Cons c by auto
    have IH: "\<And>kv n rest k. kv \<in> set kvs \<Longrightarrow> json_depth (snd kv) \<le> n \<Longrightarrow> delim rest \<Longrightarrow>
                2 * length (json_dumps (snd kv) @ rest) < k \<Longrightarrow>
                parse_value k n (json_dumps (snd kv) @ rest) = Some (Inr (snd kv, rest))"
    proof -
      fix p n rest k
      assume a: "p \<in> set kvs" "json_depth (snd p) \<le> n" "delim rest" "2 * length (json_dumps (snd p) @ rest) < k"
      obtain key v where p: "p = (key, v)" by (cases p) auto
      have "float_free v" using ff a(1) p by (auto simp: list_all_iff)
      then show "parse_value k n (json_dumps (snd p) @ rest) = Some (Inr (snd p, rest))"
        using JObj.IH [of p v] a p by simp
    qed
    have fuel: "2 * length (CHR ''{'' # join_comma (map member_str kvs) @ ''}'' @ rest) < k"
      using JObj.prems(4) unfolding json_dumps_JObj by simp
    have "parse_members k' m [] ?S = Some (Inr (JObj (rev [] @ kvs), rest))"
      by (rule parse_members_dumps [OF IH]) (use Cons ff dm fuel k in \<open>simp_all del: list.map\<close>)
    then show ?thesis using S unfolding k n json_dumps_JObj by (simp add: json_ws_def)
  qed
qed

lemma json_loads_dumps:
  "float_free j \<Longrightarrow> json_depth j \<le> n \<Longrightarrow> json_loads_str n (json_dumps j) = Inr j"
  using parse_dumps [of j n "[]" "2 * length (json_dumps j) + 2"] skip_ws_dumps [of j "[]"]
  by (simp add: json_loads_str_def)

section \<open>The printer writes ASCII\<close>

lemma ascii_hex_lower: "d < 16 \<Longrightarrow> 0 < (of_char (hex_lower d) :: nat) \<and> (of_char (hex_lower d) :: nat) < 128"
  by (simp add: hex_lower_def)

lemma ascii_json_escape_char: "ascii_text (json_escape_char c)"
proof -
  have "(of_char c :: nat) mod 16 < 16" "(of_char c :: nat) div 16 < 16"
    using nat_of_char_less_256 [of c] by (simp, linarith)
  then show ?thesis
    using ascii_hex_lower [of "of_char c div 16"] ascii_hex_lower [of "of_char c mod 16"]
    by (auto simp: json_escape_char_def Let_def)
qed

lemma ascii_json_quote: "ascii_text (json_quote s)"
  by (induction s) (simp_all add: json_quote_def ascii_json_escape_char)

lemma ascii_int_str: "ascii_text (int_str i)"
proof -
  have "ascii_text (nat_str m)" for m
    using nat_str_props [of m] by (auto simp: ascii_text_def list_all_iff is_digit_def)
  then show ?thesis by (simp add: int_str_def)
qed

lemma ascii_join_comma: "(\<forall>x \<in> set xs. ascii_text x) \<Longrightarrow> ascii_text (join_comma xs)"
  by (induction xs rule: join_comma.induct) simp_all

lemma ascii_json_dumps: "float_free j \<Longrightarrow> ascii_text (json_dumps j)"
proof (induction j)
  case (JList xs)
  then show ?case by (auto simp: list_all_iff intro!: ascii_join_comma)
next
  case (JObj kvs)
  then show ?case
    by (auto simp: list_all_iff ascii_json_quote intro!: ascii_join_comma) fastforce
qed (simp_all add: ascii_int_str ascii_json_quote)

lemma json_loads_utf8_dumps:
  assumes "float_free j" and "json_depth j \<le> n"
  shows "json_loads n (utf8_encode (json_dumps j)) = Inr j"
proof -
  have a: "ascii_text (json_dumps j)" using ascii_json_dumps [OF assms(1)] .
  show ?thesis
    using json_loads_dumps [OF assms] json_text_decode_ascii [OF a] utf8_encode_ascii_text [OF a]
    by (simp add: json_loads_def)
qed

section \<open>Round trip and fuel\<close>

text \<open>
  The scanner always finishes within the fuel that \<open>json_loads_str\<close> gives it,
  twice the length of the text plus two: on every text and every recursion budget the
  fuel-exhaustion value \<open>None\<close> is never the result, so \<open>json.loads\<close> is total.
\<close>

lemma json_loads_str_total:
  "parse_value (2 * length s + 2) n (skip_ws s) \<noteq> None"
  using parse_fuel(1) [of "skip_ws s" "2 * length s + 2" n] length_dropWhile_le [of json_ws s] by simp

section \<open>The recursion budget\<close>

text \<open>
  Arrays nested deeper than the budget raise \<open>RecursionError\<close>, whatever follows them,
  before the scanner looks at the rest of the text.
\<close>

lemma parse_nested_recursion:
  "n < m \<Longrightarrow> 2 * n < k \<Longrightarrow> parse_value k n (replicate m CHR ''['' @ r) = Some (Inl RecursionError)"
proof (induction n arbitrary: m k)
  case 0
  obtain k' where "k = Suc k'" using "0.prems"(2) by (cases k) auto
  moreover obtain m' where "m = Suc m'" using "0.prems"(1) by (cases m) auto
  ultimately show ?case by simp
next
  case (Suc n)
  define k' where "k' = k - 2"
  define m' where "m' = m - 2"
  have k: "k = Suc (Suc k')" using Suc.prems(2) by (simp add: k'_def)
  have m: "m = Suc (Suc m')" using Suc.prems(1) by (simp add: m'_def)
  have ih: "parse_value k' n (replicate (Suc m') CHR ''['' @ r) = Some (Inl RecursionError)"
    using Suc.IH [of "Suc m'" k'] Suc.prems k m by simp
  have ws: "\<not> json_ws CHR ''[''" by (simp add: json_ws_def)
  show ?case using ih ws unfolding k m by simp
qed

lemma json_loads_nested:
  assumes "n < m"
  shows "json_loads n (replicate m CHR ''['') = Inl RecursionError"
proof -
  obtain m' where m: "m = Suc m'" using assms by (cases m) auto
  have a: "ascii_text (replicate m CHR ''['')" by (simp add: ascii_text_def list_all_iff)
  have ws: "skip_ws (replicate m CHR ''['') = replicate m CHR ''[''" by (simp add: m json_ws_def)
  have "parse_value (2 * length (replicate m CHR ''['') + 2) n (replicate m CHR ''['' @ []) = Some (Inl RecursionError)"
    using assms by (intro parse_nested_recursion) simp_all
  then show ?thesis
    using json_text_decode_ascii [OF a] ws by (simp add: json_loads_def json_loads_str_def)
qed

lemma json_loads_object_no_budget:
  assumes "float_free (JObj kvs)"
  shows "json_loads 0 (utf8_encode (json_dumps (JObj kvs))) = Inl RecursionError"
proof -
  have a: "ascii_text (json_dumps (JObj kvs))" using ascii_json_dumps [OF assms] .
  have ws: "skip_ws (json_dumps (JObj kvs)) = json_dumps (JObj kvs)"
    using skip_ws_dumps [OF assms, of "[]"] by simp
  show ?thesis
    using json_text_decode_ascii [OF a] utf8_encode_ascii_text [OF a] ws
    by (simp add: json_loads_def json_loads_str_def del: json_dumps.simps) (simp add: json_dumps_JObj)
qed

end
